theory Spec2Isabelle
  imports Complex_Main "HOL-Library.Sublist"
begin

section \<open>Paket-Konfigurator: the data model of \<open>streamlit_app.py\<close>\<close>

text \<open>
  The program is one Python script. It loads a price list from a spreadsheet
  (\<open>load_data\<close>), lets the user pick articles and quantities, computes a
  discounted total with VAT, and offers the package as a spreadsheet and as a text.

  Conventions of the embedding:
  \<^item> a Python \<open>str\<close> is the list of its Unicode code points;
  \<^item> a Python \<open>float\<close> is a \<open>real\<close> in the first model of the package
    computation: it fixes which expressions are computed, with exact arithmetic. The
    same lines are modelled a second time on IEEE doubles, with rounding, overflow,
    infinities and not-a-number, for the properties that depend on them (the missing
    value of pandas in a sheet is the cell \<open>NaN\<close> of its own);
  \<^item> an exception that escapes a function is a value \<open>Inl e\<close>;
  \<^item> the calls of the \<open>st\<close> module are recorded as a list of events;
  \<^item> library behaviour the script only calls (\<open>str.lower\<close>, the number parser of
    \<open>pd.to_numeric\<close> on text, the spreadsheet reader) is a parameter;
  \<^item> a cell of a sheet is a number, a text or missing; dates and truth values are
    outside the model.
\<close>

type_synonym pystr = "nat list"

datatype cell = Num real | Txt pystr | NaN

record frame =
  columns :: "pystr list"
  rows :: "cell list list"

datatype error = TypeError | KeyError | AttributeError | IndexError | ValueError

text \<open>\<open>pd.DataFrame()\<close>, \<open>df.empty\<close> and \<open>df.shape[1]\<close>.\<close>

definition DataFrame_empty :: frame where
  "DataFrame_empty = \<lparr>columns = [], rows = []\<rparr>"

definition df_empty :: "frame \<Rightarrow> bool" where
  "df_empty df = (columns df = [] \<or> rows df = [])"

definition shape1 :: "frame \<Rightarrow> nat" where
  "shape1 df = length (columns df)"

subsection \<open>Strings\<close>

text \<open>\<open>needle in hay\<close> on strings: \<open>needle\<close> occurs as a contiguous piece.\<close>

fun starts_with :: "'a list \<Rightarrow> 'a list \<Rightarrow> bool" where
  "starts_with hay [] = True"
| "starts_with [] (n # ns) = False"
| "starts_with (h # hs) (n # ns) = (h = n \<and> starts_with hs ns)"

fun str_in :: "'a list \<Rightarrow> 'a list \<Rightarrow> bool" where
  "str_in needle [] = (needle = [])"
| "str_in needle (h # hs) = (starts_with (h # hs) needle \<or> str_in needle hs)"

text \<open>
  \<open>str.strip()\<close> without argument removes the characters for which
  \<open>str.isspace\<close> holds from both ends.
\<close>

definition isspace :: "nat \<Rightarrow> bool" where
  "isspace c = ((9 \<le> c \<and> c \<le> 13) \<or> (28 \<le> c \<and> c \<le> 32) \<or> c = 133 \<or> c = 160
     \<or> c = 5760 \<or> (8192 \<le> c \<and> c \<le> 8202) \<or> c = 8232 \<or> c = 8233
     \<or> c = 8239 \<or> c = 8287 \<or> c = 12288)"

definition strip :: "pystr \<Rightarrow> pystr" where
  "strip s = rev (dropWhile isspace (rev (dropWhile isspace s)))"

text \<open>The four literals of line 29: \<open>'pro'\<close>, \<open>'st\"uck'\<close>, \<open>'set'\<close> and the euro sign.\<close>

definition kw_pro :: pystr where "kw_pro = [112, 114, 111]"
definition kw_stueck :: pystr where "kw_stueck = [115, 116, 252, 99, 107]"
definition kw_set :: pystr where "kw_set = [115, 101, 116]"
definition kw_euro :: pystr where "kw_euro = [8364]"

text \<open>
  An instance of \<open>str.lower\<close> for concrete runs: it agrees with Python on strings of
  ASCII characters, and on the letters of line 29 that have no upper case.
\<close>

definition ascii_lower :: "pystr \<Rightarrow> pystr" where
  "ascii_lower s = map (\<lambda>c. if 65 \<le> c \<and> c \<le> 90 then c + 32 else c) s"

subsection \<open>\<open>load_data\<close> (lines 16 to 39)\<close>

text \<open>The condition of line 29 on one header, \<open>lower\<close> being \<open>str.lower\<close>.\<close>

definition price_header :: "(pystr \<Rightarrow> pystr) \<Rightarrow> pystr \<Rightarrow> bool" where
  "price_header lower c =
     (let l = lower c
      in str_in kw_pro l \<or> str_in kw_stueck l \<or> str_in kw_set l \<or> str_in kw_euro l)"

text \<open>The loop of lines 26 to 31: the first header that satisfies the condition.\<close>

fun scan_price_col :: "(pystr \<Rightarrow> pystr) \<Rightarrow> pystr list \<Rightarrow> pystr option" where
  "scan_price_col lower [] = None"
| "scan_price_col lower (c # cs) =
     (if price_header lower c then Some c else scan_price_col lower cs)"

text \<open>Lines 32 and 33: the fallback to the last column.\<close>

definition detect_price_col :: "(pystr \<Rightarrow> pystr) \<Rightarrow> pystr list \<Rightarrow> pystr option" where
  "detect_price_col lower cols =
     (case scan_price_col lower cols of
        Some c \<Rightarrow> Some c
      | None \<Rightarrow> if length cols \<ge> 2 then Some (last cols) else None)"

text \<open>Line 35.\<close>

definition detect_name_col :: "pystr list \<Rightarrow> pystr option" where
  "detect_name_col cols = (case cols of [] \<Rightarrow> None | c # _ \<Rightarrow> Some c)"

text \<open>
  \<open>pd.to_numeric(..., errors='coerce')\<close> on one cell: a number stays, a text goes
  through the number parser \<open>parse\<close> of pandas, a missing cell stays missing; \<open>None\<close>
  is the missing value. \<open>fillna(0)\<close> then replaces the missing value by 0.
\<close>

fun to_numeric :: "(pystr \<Rightarrow> real option) \<Rightarrow> cell \<Rightarrow> real option" where
  "to_numeric parse (Num r) = Some r"
| "to_numeric parse (Txt s) = parse s"
| "to_numeric parse NaN = None"

definition fillna0 :: "real option \<Rightarrow> real" where
  "fillna0 v = (case v of None \<Rightarrow> 0 | Some r \<Rightarrow> r)"

definition coerce_cell :: "(pystr \<Rightarrow> real option) \<Rightarrow> cell \<Rightarrow> cell" where
  "coerce_cell parse c = Num (fillna0 (to_numeric parse c))"

text \<open>
  Columns are addressed by label. A label that occurs once names one column; the
  position of a label is that of its first occurrence.
\<close>

fun col_index :: "pystr list \<Rightarrow> pystr \<Rightarrow> nat option" where
  "col_index [] l = None"
| "col_index (c # cs) l =
     (if c = l then Some 0 else map_option Suc (col_index cs l))"

definition label_count :: "pystr list \<Rightarrow> pystr \<Rightarrow> nat" where
  "label_count cols l = length (filter (\<lambda>c. c = l) cols)"

text \<open>
  Line 38. With a label that occurs more than once \<open>df[price_col]\<close> is a frame, not
  a column, and \<open>pd.to_numeric\<close> raises \<open>TypeError\<close>; nothing catches it.
\<close>

definition clean_price_col ::
  "(pystr \<Rightarrow> real option) \<Rightarrow> frame \<Rightarrow> pystr \<Rightarrow> error + frame" where
  "clean_price_col parse df l =
     (case col_index (columns df) l of
        None \<Rightarrow> Inl KeyError
      | Some i \<Rightarrow>
          if label_count (columns df) l > 1 then Inl TypeError
          else Inr (df\<lparr>rows := map (\<lambda>r. r[i := coerce_cell parse (r ! i)]) (rows df)\<rparr>))"

text \<open>
  What \<open>load_data\<close> hands back: the bare empty frame of line 22, or the triple of
  line 39.
\<close>

datatype load_result = Bare frame | Triple frame "pystr option" "pystr option"

text \<open>
  A line of the package (the dictionary of line 95), a row of the exported sheet (lines
  130 to 136) and the figures of the summary (lines 108 to 112).
\<close>

record line =
  Artikel :: cell
  Menge :: int
  Einzelpreis :: real
  ZeileNetto :: real

record export_row = line +
  Rabatt_pct :: real
  MwSt_pct :: int
  NettoSumme :: real
  NettoNachRabatt :: real
  MwStBetrag :: real
  BruttoSumme :: real

record summary =
  net_sum :: real
  discount_amount :: real
  net_after_discount :: real
  vat_amount :: real
  gross_total :: real

text \<open>
  The offer text, line by line, each line with the values it prints; the rendering of
  a number to two decimals and the date are left to Python.
\<close>

datatype offer_item =
    OfferTitle
  | OfferDatum
  | OfferPositionen
  | OfferPosition int cell real real
  | OfferZwischensumme real
  | OfferRabatt real real
  | OfferMwSt int real
  | OfferGesamt real

text \<open>
  The calls of \<open>st\<close> that matter here, as events: the error of line 21, the warning
  of line 51, the multiselect of line 76 with its options, the info of line 78, the
  warning of line 103, the table of line 105, the summary lines 114 to 119, the two
  download buttons and the offer text, and the three messages of the upload.
\<close>

datatype ui_event =
    StError
  | StWarningNoData
  | StMultiselect "cell list"
  | StInfo
  | StWarningNoLines
  | StTable "(cell \<times> int \<times> real \<times> real) list"
  | StSummary summary
  | StDownloadXlsx "export_row list"
  | StCode "offer_item list"
  | StDownloadTxt "offer_item list"
  | SidebarSuccess
  | SidebarSaved
  | SidebarError

text \<open>
  Lines 37 and 38, after the detection: the frame with its price column cleaned, or the
  exception.
\<close>

definition clean_frame ::
  "(pystr \<Rightarrow> real option) \<Rightarrow> frame \<Rightarrow> pystr option \<Rightarrow> error + frame" where
  "clean_frame parse df price_col =
     (case price_col of None \<Rightarrow> Inr df | Some l \<Rightarrow> clean_price_col parse df l)"

text \<open>
  \<open>rd\<close> is the outcome of \<open>pd.read_excel(path, sheet_name=0)\<close>: \<open>None\<close> when it
  raised, the frame otherwise, its labels already passed through \<open>str\<close>.
  The result is the list of events shown and the value returned or the exception raised.
\<close>

definition load_data ::
  "(pystr \<Rightarrow> pystr) \<Rightarrow> (pystr \<Rightarrow> real option) \<Rightarrow> frame option
     \<Rightarrow> ui_event list \<times> (error + load_result)" where
  "load_data lower parse rd =
     (case rd of
        None \<Rightarrow> ([StError], Inr (Bare DataFrame_empty))
      | Some df0 \<Rightarrow>
          (let df = df0\<lparr>columns := map strip (columns df0)\<rparr>;
               price_col = detect_price_col lower (columns df);
               name_col = detect_name_col (columns df)
           in ([], map_sum id (\<lambda>df'. Triple df' name_col price_col)
                     (clean_frame parse df price_col))))"

subsection \<open>The start of the script (lines 41 to 52)\<close>

datatype startup_result =
    Raised error
  | Stopped
  | Proceed frame "pystr option" "pystr option"

text \<open>
  \<open>st.stop()\<close> ends the run of the script, not the server: the result \<open>Stopped\<close>.
  An exception that escapes \<open>load_data\<close> ends the run as well.
\<close>

definition unpack :: "load_result \<Rightarrow> frame \<times> pystr option \<times> pystr option" where
  "unpack data_load =
     (case data_load of
        Triple df name_col price_col \<Rightarrow> (df, name_col, price_col)
      | Bare _ \<Rightarrow> (DataFrame_empty, None, None))"

definition guard :: "frame \<times> pystr option \<times> pystr option \<Rightarrow> ui_event list \<times> startup_result" where
  "guard t =
     (case t of (df, name_col, price_col) \<Rightarrow>
        if df_empty df then ([StWarningNoData], Stopped)
        else ([], Proceed df name_col price_col))"

definition startup ::
  "(pystr \<Rightarrow> pystr) \<Rightarrow> (pystr \<Rightarrow> real option) \<Rightarrow> frame option
     \<Rightarrow> ui_event list \<times> startup_result" where
  "startup lower parse rd =
     (case load_data lower parse rd of
        (ev, Inl e) \<Rightarrow> (ev, Raised e)
      | (ev, Inr data_load) \<Rightarrow>
          (case guard (unpack data_load) of (ev', r) \<Rightarrow> (ev @ ev', r)))"

subsection \<open>The package (lines 76 to 157)\<close>

text \<open>
  \<open>df[name_col] == art\<close> on one cell: the missing value equals nothing, itself
  included.
\<close>

definition cell_eq :: "cell \<Rightarrow> cell \<Rightarrow> bool" where
  "cell_eq a b = (a \<noteq> NaN \<and> a = b)"

text \<open>Line 89: the first row of that name; \<open>iloc[0]\<close> raises when there is none.\<close>

definition lookup_row :: "frame \<Rightarrow> pystr option \<Rightarrow> cell \<Rightarrow> error + cell list" where
  "lookup_row df name_col art =
     (case name_col of
        None \<Rightarrow> Inl KeyError
      | Some n \<Rightarrow>
          (case col_index (columns df) n of
             None \<Rightarrow> Inl KeyError
           | Some i \<Rightarrow>
               (case find (\<lambda>r. cell_eq (r ! i) art) (rows df) of
                  None \<Rightarrow> Inl IndexError
                | Some r \<Rightarrow> Inr r)))"

text \<open>
  Line 92. After \<open>load_data\<close> every cell of the price column is a number; \<open>float\<close>
  of another cell is modelled as \<open>ValueError\<close>.
\<close>

definition float_of :: "cell \<Rightarrow> error + real" where
  "float_of c = (case c of Num r \<Rightarrow> Inr r | _ \<Rightarrow> Inl ValueError)"

definition unit_price :: "frame \<Rightarrow> pystr option \<Rightarrow> cell list \<Rightarrow> error + real" where
  "unit_price df price_col row =
     (case price_col of
        None \<Rightarrow> Inr 0
      | Some l \<Rightarrow>
          (case col_index (columns df) l of
             None \<Rightarrow> Inl KeyError
           | Some j \<Rightarrow> float_of (row ! j)))"

text \<open>
  The loop of lines 87 to 95 over the selected articles, each with the quantity of its
  number input; the state is \<open>total_net\<close> and \<open>package_lines\<close>.
\<close>

definition make_line :: "cell \<Rightarrow> int \<Rightarrow> real \<Rightarrow> line" where
  "make_line art qty price =
     \<lparr>Artikel = art, Menge = qty, Einzelpreis = price, ZeileNetto = real_of_int qty * price\<rparr>"

fun collect_lines ::
  "frame \<Rightarrow> pystr option \<Rightarrow> pystr option \<Rightarrow> (cell \<times> int) list
     \<Rightarrow> real \<Rightarrow> line list \<Rightarrow> error + (real \<times> line list)" where
  "collect_lines df name_col price_col [] total_net package_lines =
     Inr (total_net, package_lines)"
| "collect_lines df name_col price_col ((art, qty) # sel) total_net package_lines =
     (case lookup_row df name_col art of
        Inl e \<Rightarrow> Inl e
      | Inr row \<Rightarrow>
          (case unit_price df price_col row of
             Inl e \<Rightarrow> Inl e
           | Inr price \<Rightarrow>
               collect_lines df name_col price_col sel
                 (total_net + ZeileNetto (make_line art qty price))
                 (package_lines @ [make_line art qty price])))"

text \<open>Line 101.\<close>

definition package_df :: "line list \<Rightarrow> line list" where
  "package_df package_lines = filter (\<lambda>l. Menge l > 0) package_lines"

text \<open>Lines 108 to 112, on the filtered lines.\<close>

definition compute_summary :: "line list \<Rightarrow> real \<Rightarrow> int \<Rightarrow> summary" where
  "compute_summary pdf discount_pct mwst_pct =
     (let apply_vat = (mwst_pct \<noteq> 0);
          net = sum_list (map ZeileNetto pdf);
          disc = net * (discount_pct / 100);
          after = net - disc;
          vat = (if apply_vat then after * (real_of_int mwst_pct / 100) else 0)
      in \<lparr>net_sum = net, discount_amount = disc, net_after_discount = after,
          vat_amount = vat, gross_total = after + vat\<rparr>)"

text \<open>Lines 105 and 106: the table shown.\<close>

definition table_rows :: "line list \<Rightarrow> (cell \<times> int \<times> real \<times> real) list" where
  "table_rows pdf = map (\<lambda>l. (Artikel l, Menge l, Einzelpreis l, ZeileNetto l)) pdf"

text \<open>
  Lines 130 to 136: the rows of the exported sheet, the totals repeated on every row.
  Writing them to bytes (\<open>to_excel_bytes\<close>) is left to pandas.
\<close>

definition export_df :: "line list \<Rightarrow> real \<Rightarrow> int \<Rightarrow> summary \<Rightarrow> export_row list" where
  "export_df pdf discount_pct mwst_pct s =
     map (\<lambda>l. \<lparr>Artikel = Artikel l, Menge = Menge l, Einzelpreis = Einzelpreis l,
                ZeileNetto = ZeileNetto l, Rabatt_pct = discount_pct, MwSt_pct = mwst_pct,
                NettoSumme = net_sum s, NettoNachRabatt = net_after_discount s,
                MwStBetrag = vat_amount s, BruttoSumme = gross_total s\<rparr>) pdf"

text \<open>Lines 142 to 154: the offer text.\<close>

definition offer_text :: "line list \<Rightarrow> real \<Rightarrow> int \<Rightarrow> summary \<Rightarrow> offer_item list" where
  "offer_text pdf discount_pct mwst_pct s =
     [OfferTitle, OfferDatum, OfferPositionen]
     @ map (\<lambda>r. OfferPosition (Menge r) (Artikel r) (Einzelpreis r) (ZeileNetto r)) pdf
     @ [OfferZwischensumme (net_sum s)]
     @ (if discount_pct > 0 then [OfferRabatt (discount_amount s) discount_pct] else [])
     @ (if mwst_pct \<noteq> 0 then [OfferMwSt mwst_pct (vat_amount s)] else [])
     @ [OfferGesamt (gross_total s)]"

text \<open>Lines 100 to 157: what is shown for the lines collected.\<close>

definition summary_section :: "line list \<Rightarrow> real \<Rightarrow> int \<Rightarrow> ui_event list" where
  "summary_section package_lines discount_pct mwst_pct =
     (let pdf = package_df package_lines
      in if pdf = [] then [StWarningNoLines]
         else (let s = compute_summary pdf discount_pct mwst_pct
               in [StTable (table_rows pdf), StSummary s,
                   StDownloadXlsx (export_df pdf discount_pct mwst_pct s),
                   StCode (offer_text pdf discount_pct mwst_pct s),
                   StDownloadTxt (offer_text pdf discount_pct mwst_pct s)]))"

text \<open>Lines 77 to 157.\<close>

definition package_section ::
  "frame \<Rightarrow> pystr option \<Rightarrow> pystr option \<Rightarrow> (cell \<times> int) list \<Rightarrow> real \<Rightarrow> int
     \<Rightarrow> error + ui_event list" where
  "package_section df name_col price_col selected discount_pct mwst_pct =
     (if selected = [] then Inr [StInfo]
      else (case collect_lines df name_col price_col selected 0 [] of
              Inl e \<Rightarrow> Inl e
            | Inr (total_net, package_lines) \<Rightarrow>
                Inr (summary_section package_lines discount_pct mwst_pct)))"

subsection \<open>The package in double arithmetic (lines 87 to 112)\<close>

text \<open>
  The definitions above take a Python \<open>float\<close> for a real number. That fixes the
  expressions computed, not their rounding and overflow. Where a property depends on
  either, lines 87 to 112 are modelled again on the values of an IEEE binary64
  \<open>float\<close>: a finite number, plus or minus infinity, or not-a-number. The sign of a
  zero is not kept: it changes no sum, product or comparison of these lines.
\<close>

datatype double = Finite real | PosInf | NegInf | NotANumber

text \<open>
  Rounding to the nearest double, ties to even. \<open>expo x\<close> is the binary exponent of
  \<open>x\<close>, not below that of the smallest normal number; \<open>ulp x\<close> is the distance of
  neighbouring doubles there; \<open>rne\<close> rounds to the nearest integer, a tie to the even
  one. A rounded value of \<open>2 ^ 1024\<close> or more in size does not fit and becomes an
  infinity.
\<close>

definition expo :: "real \<Rightarrow> int" where
  "expo x = max \<lfloor>log 2 \<bar>x\<bar>\<rfloor> (- 1022)"

definition ulp :: "real \<Rightarrow> real" where
  "ulp x = 2 powi (expo x - 52)"

definition rne :: "real \<Rightarrow> int" where
  "rne q =
     (let f = \<lfloor>q\<rfloor>
      in if q - of_int f < 1 / 2 then f
         else if 1 / 2 < q - of_int f then f + 1
         else if even f then f else f + 1)"

definition round64 :: "real \<Rightarrow> real" where
  "round64 x = (if x = 0 then 0 else of_int (rne (x / ulp x)) * ulp x)"

definition to_double :: "real \<Rightarrow> double" where
  "to_double x =
     (let y = round64 x
      in if 2 ^ 1024 \<le> y then PosInf
         else if y \<le> - (2 ^ 1024) then NegInf
         else Finite y)"

text \<open>
  The operators \<open>+\<close>, \<open>-\<close> and \<open>*\<close> of Python (and of numpy) on two floats, the
  division by the literal \<open>100.0\<close>, and the comparison \<open>\<le>\<close>. Every operation is
  the exact one, rounded; not-a-number spreads, compares false with everything, and
  comes from \<open>inf - inf\<close> and \<open>inf * 0\<close>.
\<close>

fun fneg :: "double \<Rightarrow> double" where
  "fneg (Finite a) = Finite (- a)"
| "fneg PosInf = NegInf"
| "fneg NegInf = PosInf"
| "fneg NotANumber = NotANumber"

fun fadd :: "double \<Rightarrow> double \<Rightarrow> double" where
  "fadd (Finite a) (Finite b) = to_double (a + b)"
| "fadd NotANumber y = NotANumber"
| "fadd x NotANumber = NotANumber"
| "fadd PosInf NegInf = NotANumber"
| "fadd NegInf PosInf = NotANumber"
| "fadd PosInf y = PosInf"
| "fadd x PosInf = PosInf"
| "fadd NegInf y = NegInf"
| "fadd x NegInf = NegInf"

definition fsub :: "double \<Rightarrow> double \<Rightarrow> double" where
  "fsub x y = fadd x (fneg y)"

fun fmul :: "double \<Rightarrow> double \<Rightarrow> double" where
  "fmul (Finite a) (Finite b) = to_double (a * b)"
| "fmul NotANumber y = NotANumber"
| "fmul x NotANumber = NotANumber"
| "fmul (Finite a) PosInf = (if a = 0 then NotANumber else if 0 < a then PosInf else NegInf)"
| "fmul (Finite a) NegInf = (if a = 0 then NotANumber else if 0 < a then NegInf else PosInf)"
| "fmul PosInf (Finite b) = (if b = 0 then NotANumber else if 0 < b then PosInf else NegInf)"
| "fmul NegInf (Finite b) = (if b = 0 then NotANumber else if 0 < b then NegInf else PosInf)"
| "fmul PosInf PosInf = PosInf"
| "fmul PosInf NegInf = NegInf"
| "fmul NegInf PosInf = NegInf"
| "fmul NegInf NegInf = PosInf"

fun div100 :: "double \<Rightarrow> double" where
  "div100 (Finite a) = to_double (a / 100)"
| "div100 PosInf = PosInf"
| "div100 NegInf = NegInf"
| "div100 NotANumber = NotANumber"

fun fle :: "double \<Rightarrow> double \<Rightarrow> bool" where
  "fle (Finite a) (Finite b) = (a \<le> b)"
| "fle NotANumber y = False"
| "fle x NotANumber = False"
| "fle NegInf y = True"
| "fle x PosInf = True"
| "fle PosInf y = False"
| "fle x NegInf = False"

text \<open>
  An \<open>int\<close> that meets a \<open>float\<close> in \<open>qty * price\<close> or \<open>mwst_pct/100.0\<close> is
  converted first: rounded to the nearest double, and \<open>OverflowError\<close> when it is
  too large for one.
\<close>

datatype arith_error = OverflowError

definition int_float :: "int \<Rightarrow> arith_error + double" where
  "int_float k =
     (case to_double (of_int k) of Finite r \<Rightarrow> Inr (Finite r) | _ \<Rightarrow> Inl OverflowError)"

text \<open>
  \<open>package_df["ZeileNetto"].sum()\<close>: pandas puts 0 for every not-a-number
  (\<open>skipna\<close>) and lets numpy add. For a vector of doubles numpy starts from 0.0 and
  adds its pairwise sum of the vector: under 8 numbers one after the other from 0.0;
  up to 128 numbers in 8 running sums (\<open>unrolled8\<close>) that are then added in pairs
  (\<open>combine8\<close>), the numbers left over one after the other; above 128 numbers the sum
  of the two halves, the first half a multiple of 8 long.
\<close>

function unrolled8 :: "double list \<Rightarrow> double list \<Rightarrow> double list \<times> double list" where
  "unrolled8 r a =
     (if length a < 8 then (r, a)
      else unrolled8 (map2 fadd r (take 8 a)) (drop 8 a))"
  by pat_completeness auto
termination
  by (relation "measure (\<lambda>(r, a). length a)") auto

declare unrolled8.simps [simp del]

definition combine8 :: "double list \<Rightarrow> double" where
  "combine8 r =
     fadd (fadd (fadd (r ! 0) (r ! 1)) (fadd (r ! 2) (r ! 3)))
          (fadd (fadd (r ! 4) (r ! 5)) (fadd (r ! 6) (r ! 7)))"

function pairwise_sum :: "double list \<Rightarrow> double" where
  "pairwise_sum a =
     (if length a < 8 then foldl fadd (Finite 0) a
      else if length a \<le> 128 then
        (case unrolled8 (take 8 a) (drop 8 a) of
           (r, rest) \<Rightarrow> foldl fadd (combine8 r) rest)
      else
        (let n2 = length a div 2 - (length a div 2) mod 8
         in fadd (pairwise_sum (take n2 a)) (pairwise_sum (drop n2 a))))"
  by pat_completeness auto
termination
  by (relation "measure length") auto

declare pairwise_sum.simps [simp del]

definition np_sum :: "double list \<Rightarrow> double" where
  "np_sum a = fadd (Finite 0) (pairwise_sum a)"

definition series_sum :: "double list \<Rightarrow> double" where
  "series_sum xs = np_sum (map (\<lambda>x. if x = NotANumber then Finite 0 else x) xs)"

text \<open>
  The dictionary of line 95 and the figures of lines 108 to 112, with doubles.
\<close>

record line_d =
  Artikel_d :: cell
  Menge_d :: int
  Einzelpreis_d :: double
  ZeileNetto_d :: double

record summary_d =
  net_sum_d :: double
  discount_amount_d :: double
  net_after_discount_d :: double
  vat_amount_d :: double
  gross_total_d :: double

text \<open>
  The loop of lines 87 to 95 on the articles selected, each with the quantity of its
  number input and the price that lines 89 and 92 have read from the catalog:
  \<open>line = qty * price\<close> and \<open>total_net += line\<close>, from \<open>total_net = 0.0\<close>.
\<close>

fun collect_lines_d ::
  "(cell \<times> int \<times> double) list \<Rightarrow> double \<Rightarrow> line_d list
     \<Rightarrow> arith_error + (double \<times> line_d list)" where
  "collect_lines_d [] total_net package_lines = Inr (total_net, package_lines)"
| "collect_lines_d ((art, qty, price) # sel) total_net package_lines =
     (case int_float qty of
        Inl e \<Rightarrow> Inl e
      | Inr q \<Rightarrow>
          collect_lines_d sel (fadd total_net (fmul q price))
            (package_lines @ [\<lparr>Artikel_d = art, Menge_d = qty, Einzelpreis_d = price,
                                ZeileNetto_d = fmul q price\<rparr>]))"

text \<open>Line 101 and lines 108 to 112.\<close>

definition package_df_d :: "line_d list \<Rightarrow> line_d list" where
  "package_df_d package_lines = filter (\<lambda>l. Menge_d l > 0) package_lines"

definition compute_summary_d ::
  "line_d list \<Rightarrow> double \<Rightarrow> int \<Rightarrow> arith_error + summary_d" where
  "compute_summary_d pdf discount_pct mwst_pct =
     (let net = series_sum (map ZeileNetto_d pdf);
          disc = fmul net (div100 discount_pct);
          after = fsub net disc
      in if mwst_pct \<noteq> 0 then
           (case int_float mwst_pct of
              Inl e \<Rightarrow> Inl e
            | Inr v \<Rightarrow>
                Inr \<lparr>net_sum_d = net, discount_amount_d = disc, net_after_discount_d = after,
                     vat_amount_d = fmul after (div100 v),
                     gross_total_d = fadd after (fmul after (div100 v))\<rparr>)
         else
           Inr \<lparr>net_sum_d = net, discount_amount_d = disc, net_after_discount_d = after,
                vat_amount_d = Finite 0, gross_total_d = fadd after (Finite 0)\<rparr>)"

text \<open>
  Lines 100 to 112: no summary is computed when no line is left after the filter (the
  warning of line 103).
\<close>

definition summarise_d ::
  "line_d list \<Rightarrow> double \<Rightarrow> int \<Rightarrow> (arith_error + summary_d) option" where
  "summarise_d package_lines discount_pct mwst_pct =
     (let pdf = package_df_d package_lines
      in if pdf = [] then None else Some (compute_summary_d pdf discount_pct mwst_pct))"

text \<open>
  The values that double arithmetic returns: an infinity, not-a-number, or a finite
  number that rounding leaves as it is and that fits.
\<close>

definition is_double :: "double \<Rightarrow> bool" where
  "is_double t = (case t of Finite z \<Rightarrow> round64 z = z \<and> \<bar>z\<bar> < 2 ^ 1024 | _ \<Rightarrow> True)"

subsection \<open>Files, the upload (lines 162 to 172) and a whole run\<close>

text \<open>
  Paths are ASCII literals, written as HOL strings. The file system maps an absolute
  path to the content of the file there; a relative path is taken from the working
  directory \<open>cwd\<close>.
\<close>

definition abspath :: "string \<Rightarrow> string \<Rightarrow> string" where
  "abspath cwd p = (if starts_with p ''/'' then p else cwd @ ''/'' @ p)"

definition default_path :: string where
  "default_path = ''Miete.xlsx''"

definition upload_path :: string where
  "upload_path = ''/mnt/data/Miete_uploaded.xlsx''"

text \<open>
  \<open>pd.read_excel\<close> of a path: it raises (\<open>None\<close>) when there is no file or when the
  parser \<open>excel\<close> of the library rejects the content.
\<close>

definition read_excel ::
  "('b \<Rightarrow> frame option) \<Rightarrow> (string \<rightharpoonup> 'b) \<Rightarrow> string \<Rightarrow> string \<Rightarrow> frame option" where
  "read_excel excel fs cwd p =
     (case fs (abspath cwd p) of None \<Rightarrow> None | Some b \<Rightarrow> excel b)"

text \<open>
  The upload: the file is parsed, only to see that it can be, and its bytes are
  written to \<open>upload_path\<close>. The write is taken to succeed; a write that fails
  (no such directory) is outside the model.
\<close>

definition upload_section ::
  "('b \<Rightarrow> frame option) \<Rightarrow> (string \<rightharpoonup> 'b) \<Rightarrow> 'b option
     \<Rightarrow> ui_event list \<times> (string \<rightharpoonup> 'b)" where
  "upload_section excel fs uploaded =
     (case uploaded of
        None \<Rightarrow> ([], fs)
      | Some b \<Rightarrow>
          (case excel b of
             None \<Rightarrow> ([SidebarError], fs)
           | Some new_df \<Rightarrow> ([SidebarSuccess, SidebarSaved], fs(upload_path \<mapsto> b))))"

text \<open>
  Lines 62 to 76 with an empty search box. Line 71 selects the name and the price
  column by label and raises \<open>KeyError\<close> when one of them is \<open>None\<close>. The table
  of line 72 has no event here; line 76 offers the cells of the name column.
\<close>

definition column_cells :: "frame \<Rightarrow> nat \<Rightarrow> cell list" where
  "column_cells df i = map (\<lambda>r. r ! i) (rows df)"

text \<open>
  The table of line 72 has the two columns selected in line 71, renamed. When the name
  label occurs twice among the headers, or the name and the price column are one and
  the same column, that table has two columns of one name and \<open>st.dataframe\<close>
  raises \<open>ValueError\<close>.
\<close>

definition select_section ::
  "frame \<Rightarrow> pystr option \<Rightarrow> pystr option \<Rightarrow> error + ui_event list" where
  "select_section df name_col price_col =
     (case (name_col, price_col) of
        (Some n, Some p) \<Rightarrow>
          (case col_index (columns df) n of
             None \<Rightarrow> Inl KeyError
           | Some i \<Rightarrow>
               if n = p \<or> label_count (columns df) n > 1 then Inl ValueError
               else Inr [StMultiselect (column_cells df i)])
      | _ \<Rightarrow> Inl KeyError)"

text \<open>
  What the user enters in one run: the VAT rate, the discount, the articles picked, each
  with the quantity of its number input, and the file uploaded, if any. The widgets let
  through a rate of 0, 7 or 19, a discount from 0 to 100, quantities from 0 and articles
  of the catalog, each once; the functions are modelled on all values.
\<close>

record 'b inputs =
  mwst_pct :: int
  discount_pct :: real
  selected :: "(cell \<times> int) list"
  uploaded :: "'b option"

datatype outcome = Completed | Halted | Crashed error

text \<open>
  One run of the script: the events, how the run ended and the file system after it.
  The server outlives each of the three endings. The cache of \<open>st.cache_data\<close>
  is not modelled: every run reads the file, as the first run after a restart does.
\<close>

definition after_startup ::
  "('b \<Rightarrow> frame option) \<Rightarrow> (string \<rightharpoonup> 'b) \<Rightarrow> 'b inputs
     \<Rightarrow> frame \<Rightarrow> pystr option \<Rightarrow> pystr option
     \<Rightarrow> ui_event list \<times> outcome \<times> (string \<rightharpoonup> 'b)" where
  "after_startup excel fs inp df name_col price_col =
     (case select_section df name_col price_col of
        Inl e \<Rightarrow> ([], Crashed e, fs)
      | Inr ev1 \<Rightarrow>
          (case package_section df name_col price_col (selected inp)
                  (discount_pct inp) (mwst_pct inp) of
             Inl e \<Rightarrow> (ev1, Crashed e, fs)
           | Inr ev2 \<Rightarrow>
               (case upload_section excel fs (uploaded inp) of
                  (ev3, fs') \<Rightarrow> (ev1 @ ev2 @ ev3, Completed, fs'))))"

definition run ::
  "(pystr \<Rightarrow> pystr) \<Rightarrow> (pystr \<Rightarrow> real option) \<Rightarrow> ('b \<Rightarrow> frame option) \<Rightarrow> string
     \<Rightarrow> (string \<rightharpoonup> 'b) \<Rightarrow> 'b inputs \<Rightarrow> ui_event list \<times> outcome \<times> (string \<rightharpoonup> 'b)" where
  "run lower parse excel cwd fs inp =
     (case startup lower parse (read_excel excel fs cwd default_path) of
        (ev, Raised e) \<Rightarrow> (ev, Crashed e, fs)
      | (ev, Stopped) \<Rightarrow> (ev, Halted, fs)
      | (ev, Proceed df name_col price_col) \<Rightarrow>
          (case after_startup excel fs inp df name_col price_col of
             (ev', r) \<Rightarrow> (ev @ ev', r)))"

subsection \<open>What an event shows of the package lines\<close>

text \<open>
  The lines of the package that an event puts before the user: the rows of the table,
  the rows of the exported sheet, the positions of the offer text.
\<close>

fun shown_lines :: "ui_event \<Rightarrow> (cell \<times> int \<times> real \<times> real) list" where
  "shown_lines (StTable tb) = tb"
| "shown_lines (StDownloadXlsx ex) =
     map (\<lambda>r. (Artikel r, Menge r, Einzelpreis r, ZeileNetto r)) ex"
| "shown_lines (StCode t) = [(a, q, p, z). OfferPosition q a p z \<leftarrow> t]"
| "shown_lines (StDownloadTxt t) = [(a, q, p, z). OfferPosition q a p z \<leftarrow> t]"
| "shown_lines _ = []"

definition shows_lines :: "ui_event \<Rightarrow> bool" where
  "shows_lines ev =
     (case ev of
        StTable _ \<Rightarrow> True
      | StDownloadXlsx _ \<Rightarrow> True
      | StCode _ \<Rightarrow> True
      | StDownloadTxt _ \<Rightarrow> True
      | _ \<Rightarrow> False)"

subsection \<open>The catalog of the specification's scenarios\<close>

text \<open>
  The strings \<open>Tisch\<close>, \<open>Stuhl\<close>, \<open>Artikel\<close> and \<open>Preis\<close>, and the loaded catalog
  of scenario A: a table at 10.00 and a chair at 5.00.
\<close>

definition Tisch :: pystr where "Tisch = [84, 105, 115, 99, 104]"
definition Stuhl :: pystr where "Stuhl = [83, 116, 117, 104, 108]"
definition hdr_Artikel :: pystr where "hdr_Artikel = [65, 114, 116, 105, 107, 101, 108]"
definition hdr_Preis :: pystr where "hdr_Preis = [80, 114, 101, 105, 115]"

definition scenario_catalog :: frame where
  "scenario_catalog =
     \<lparr>columns = [hdr_Artikel, hdr_Preis],
      rows = [[Txt Tisch, Num 10], [Txt Stuhl, Num 5]]\<rparr>"

text \<open>
  A sheet as the reader returns it, before \<open>load_data\<close>: headers with blanks around
  them, a header that names a price per day, and a price cell that holds the text
  \<open>n/a\<close> (scenario D).
\<close>

definition hdr_Preis_pro_Tag :: pystr where
  "hdr_Preis_pro_Tag = [80, 114, 101, 105, 115, 32, 112, 114, 111, 32, 84, 97, 103]"

definition str_na :: pystr where "str_na = [110, 47, 97]"

definition raw_catalog :: frame where
  "raw_catalog =
     \<lparr>columns = [32 # hdr_Artikel, hdr_Preis_pro_Tag @ [32], hdr_Preis],
      rows = [[Txt Tisch, Num 10, Num 12], [Txt Stuhl, Txt str_na, NaN]]\<rparr>"

text \<open>
  A sheet whose price column holds a text that is a number (\<open>12.5\<close>), a text that is
  none (\<open>n/a\<close>), a number and a missing cell; and the number parser of pandas on these
  two texts: \<open>12.5\<close> reads as the number 12.5, \<open>n/a\<close> does not read as a number.
\<close>

definition Bank :: pystr where "Bank = [66, 97, 110, 107]"

definition str_12_5 :: pystr where "str_12_5 = [49, 50, 46, 53]"

definition Regal :: pystr where "Regal = [82, 101, 103, 97, 108]"

definition text_catalog :: frame where
  "text_catalog =
     \<lparr>columns = [hdr_Artikel, hdr_Preis_pro_Tag],
      rows = [[Txt Tisch, Txt str_12_5], [Txt Stuhl, Txt str_na],
              [Txt Bank, Num 7], [Txt Regal, NaN]]\<rparr>"

definition text_catalog_loaded :: frame where
  "text_catalog_loaded =
     \<lparr>columns = [hdr_Artikel, hdr_Preis_pro_Tag],
      rows = [[Txt Tisch, Num (25 / 2)], [Txt Stuhl, Num 0],
              [Txt Bank, Num 7], [Txt Regal, Num 0]]\<rparr>"

definition parse_sample :: "pystr \<Rightarrow> real option" where
  "parse_sample s = (if s = str_12_5 then Some (25 / 2) else None)"

text \<open>A sheet with a negative number in its price column.\<close>

definition negative_catalog :: frame where
  "negative_catalog =
     \<lparr>columns = [hdr_Artikel, hdr_Preis], rows = [[Txt Tisch, Num (- 5)]]\<rparr>"

text \<open>
  The number parser cut down to one that takes no text for a number: enough for the
  sheets above, whose only text in a price column is \<open>n/a\<close>.
\<close>

definition parse_none :: "pystr \<Rightarrow> real option" where
  "parse_none s = None"

text \<open>
  A disk that holds the catalog of scenario A as \<open>/mnt/data/Miete.xlsx\<close>, and another
  catalog, a bench at 7.00, to upload. The content of a file is the frame it parses
  to, so the spreadsheet parser is \<open>Some\<close>.
\<close>

definition other_catalog :: frame where
  "other_catalog = \<lparr>columns = [hdr_Artikel, hdr_Preis], rows = [[Txt Bank, Num 7]]\<rparr>"

definition disk_before :: "string \<rightharpoonup> frame" where
  "disk_before = [''/mnt/data/Miete.xlsx'' \<mapsto> scenario_catalog]"

text \<open>
  Eight articles, named \<open>1\<close> to \<open>8\<close>, at the prices 0.1 to 0.8, each the double
  that Python reads from the decimal, and each selected once; and the lines that the
  loop collects for them.
\<close>

definition eight_selected :: "(cell \<times> int \<times> double) list" where
  "eight_selected =
     [(Txt [49], 1, to_double (1 / 10)),
      (Txt [50], 1, to_double (1 / 5)),
      (Txt [51], 1, to_double (3 / 10)),
      (Txt [52], 1, to_double (2 / 5)),
      (Txt [53], 1, to_double (1 / 2)),
      (Txt [54], 1, to_double (3 / 5)),
      (Txt [55], 1, to_double (7 / 10)),
      (Txt [56], 1, to_double (4 / 5))]"

definition eight_collected :: "line_d list" where
  "eight_collected =
     [\<lparr>Artikel_d = Txt [49], Menge_d = 1, Einzelpreis_d = to_double (1 / 10),
        ZeileNetto_d = to_double (1 / 10)\<rparr>,
      \<lparr>Artikel_d = Txt [50], Menge_d = 1, Einzelpreis_d = to_double (1 / 5),
        ZeileNetto_d = to_double (1 / 5)\<rparr>,
      \<lparr>Artikel_d = Txt [51], Menge_d = 1, Einzelpreis_d = to_double (3 / 10),
        ZeileNetto_d = to_double (3 / 10)\<rparr>,
      \<lparr>Artikel_d = Txt [52], Menge_d = 1, Einzelpreis_d = to_double (2 / 5),
        ZeileNetto_d = to_double (2 / 5)\<rparr>,
      \<lparr>Artikel_d = Txt [53], Menge_d = 1, Einzelpreis_d = to_double (1 / 2),
        ZeileNetto_d = to_double (1 / 2)\<rparr>,
      \<lparr>Artikel_d = Txt [54], Menge_d = 1, Einzelpreis_d = to_double (3 / 5),
        ZeileNetto_d = to_double (3 / 5)\<rparr>,
      \<lparr>Artikel_d = Txt [55], Menge_d = 1, Einzelpreis_d = to_double (7 / 10),
        ZeileNetto_d = to_double (7 / 10)\<rparr>,
      \<lparr>Artikel_d = Txt [56], Menge_d = 1, Einzelpreis_d = to_double (4 / 5),
        ZeileNetto_d = to_double (4 / 5)\<rparr>]"

section \<open>Properties of the package computation\<close>

subsection \<open>The loop that collects the lines\<close>

text \<open>
  When the loop ends without an exception it has appended one line per selected article,
  in order, each with its net amount \<open>quantity \<times> price\<close>, and has added these
  amounts to the running total.
\<close>

lemma collect_lines_Inr:
  "collect_lines df nc pc sel t acc = Inr (t', ls) \<Longrightarrow>
     \<exists>new. ls = acc @ new \<and> t' = t + sum_list (map ZeileNetto new)
        \<and> map (\<lambda>l. (Artikel l, Menge l)) new = sel
        \<and> (\<forall>l\<in>set new. ZeileNetto l = real_of_int (Menge l) * Einzelpreis l)"
proof (induction sel arbitrary: t acc)
  case Nil
  then show ?case by simp
next
  case (Cons a sel)
  obtain art qty where a: "a = (art, qty)" by (cases a)
  from Cons.prems a obtain row price where
    rec: "collect_lines df nc pc sel (t + ZeileNetto (make_line art qty price))
            (acc @ [make_line art qty price]) = Inr (t', ls)"
    by (auto split: sum.splits)
  from Cons.IH [OF rec] obtain new where
    n: "ls = (acc @ [make_line art qty price]) @ new"
       "t' = (t + ZeileNetto (make_line art qty price)) + sum_list (map ZeileNetto new)"
       "map (\<lambda>l. (Artikel l, Menge l)) new = sel"
       "\<forall>l\<in>set new. ZeileNetto l = real_of_int (Menge l) * Einzelpreis l"
    by blast
  show ?case
    by (rule exI [of _ "make_line art qty price # new"]) (use n a in \<open>simp add: make_line_def\<close>)
qed

lemma net_sum_compute: "net_sum (compute_summary pdf d v) = sum_list (map ZeileNetto pdf)"
  by (simp add: compute_summary_def Let_def)

lemma summary_section_summary:
  "StSummary s \<in> set (summary_section ls d v) \<Longrightarrow>
     package_df ls \<noteq> [] \<and> s = compute_summary (package_df ls) d v"
  by (auto simp: summary_section_def Let_def split: if_splits)

lemma scenario_names: "Tisch \<noteq> Stuhl" "hdr_Artikel \<noteq> hdr_Preis"
  by (simp_all add: Tisch_def Stuhl_def hdr_Artikel_def hdr_Preis_def)

lemma scenario_A_lines:
  "collect_lines scenario_catalog (Some hdr_Artikel) (Some hdr_Preis)
      [(Txt Tisch, 2), (Txt Stuhl, 3)] 0 [] =
   Inr (35, [make_line (Txt Tisch) 2 10, make_line (Txt Stuhl) 3 5])"
  using scenario_names
  by (simp add: scenario_catalog_def lookup_row_def unit_price_def cell_eq_def float_of_def
      make_line_def)

lemma scenario_C_lines:
  "collect_lines scenario_catalog (Some hdr_Artikel) (Some hdr_Preis)
      [(Txt Tisch, 2), (Txt Stuhl, 0)] 0 [] =
   Inr (20, [make_line (Txt Tisch) 2 10, make_line (Txt Stuhl) 0 5])"
  using scenario_names
  by (simp add: scenario_catalog_def lookup_row_def unit_price_def cell_eq_def float_of_def
      make_line_def)

subsection \<open>The summary\<close>

text \<open>
  Claim C1. Every summary the script shows, for net subtotal \<open>s\<close>, discount percentage
  \<open>d\<close> and VAT percentage \<open>v\<close>, has discount amount \<open>s \<times> d / 100\<close>, net after
  discount \<open>s\<close> minus the discount amount, VAT amount 0 when \<open>v = 0\<close> and net after
  discount \<open>\<times> v / 100\<close> otherwise, and gross total net after discount plus VAT amount.
\<close>

theorem summary_formulas:
  assumes "StSummary s \<in> set (summary_section package_lines d v)"
  shows "discount_amount s = net_sum s * d / 100
       \<and> net_after_discount s = net_sum s - discount_amount s
       \<and> (v = 0 \<longrightarrow> vat_amount s = 0)
       \<and> (v \<noteq> 0 \<longrightarrow> vat_amount s = net_after_discount s * real_of_int v / 100)
       \<and> gross_total s = net_after_discount s + vat_amount s"
  using summary_section_summary [OF assms]
  by (simp add: compute_summary_def Let_def)

theorem summary_formulas_witness:
  "StSummary \<lparr>net_sum = 35, discount_amount = 35 / 10, net_after_discount = 315 / 10,
       vat_amount = 2205 / 1000, gross_total = 33705 / 1000\<rparr>
     \<in> set (summary_section [make_line (Txt Tisch) 2 10, make_line (Txt Stuhl) 3 5] 10 7)
   \<and> (35 / 10 :: real) = 35 * 10 / 100
   \<and> (315 / 10 :: real) = 35 - 35 / 10
   \<and> (2205 / 1000 :: real) = 315 / 10 * real_of_int 7 / 100
   \<and> (33705 / 1000 :: real) = 315 / 10 + 2205 / 1000"
proof -
  have h: "StSummary \<lparr>net_sum = 35, discount_amount = 35 / 10, net_after_discount = 315 / 10,
       vat_amount = 2205 / 1000, gross_total = 33705 / 1000\<rparr>
     \<in> set (summary_section [make_line (Txt Tisch) 2 10, make_line (Txt Stuhl) 3 5] 10 7)"
    by (simp add: summary_section_def package_df_def make_line_def compute_summary_def Let_def)
  show ?thesis using h summary_formulas [OF h] by simp
qed

text \<open>
  Claim C3. For the catalog of scenario A with two tables and three chairs selected,
  no discount and 19 percent VAT, the script shows one summary: net subtotal 35.00,
  VAT amount 6.65 and gross total 41.65.
\<close>

theorem scenario_A_totals:
  "\<exists>ev. package_section scenario_catalog (Some hdr_Artikel) (Some hdr_Preis)
          [(Txt Tisch, 2), (Txt Stuhl, 3)] 0 19 = Inr ev
      \<and> [s. StSummary s \<leftarrow> ev] =
          [\<lparr>net_sum = 35, discount_amount = 0, net_after_discount = 35,
            vat_amount = 665 / 100, gross_total = 4165 / 100\<rparr>]"
  by (simp del: collect_lines.simps
      add: package_section_def scenario_A_lines summary_section_def package_df_def
        make_line_def compute_summary_def Let_def)

subsection \<open>Lines of quantity 0\<close>

lemma offer_positions:
  "[(a, q, p, z). OfferPosition q a p z \<leftarrow> offer_text pdf d v s] = table_rows pdf"
proof -
  have "[(a, q, p, z). OfferPosition q a p z \<leftarrow>
          map (\<lambda>r. OfferPosition (Menge r) (Artikel r) (Einzelpreis r) (ZeileNetto r)) pdf]
        = table_rows pdf"
    by (induction pdf) (simp_all add: table_rows_def)
  then show ?thesis by (simp add: offer_text_def)
qed

lemma export_lines:
  "map (\<lambda>r. (Artikel r, Menge r, Einzelpreis r, ZeileNetto r)) (export_df pdf d v s)
     = table_rows pdf"
  by (simp add: export_df_def table_rows_def comp_def)

lemma shown_lines_summary_section:
  "ev \<in> set (summary_section ls d v) \<Longrightarrow> shows_lines ev \<Longrightarrow>
     shown_lines ev = table_rows (package_df ls)"
  by (auto simp: summary_section_def Let_def shows_lines_def offer_positions export_lines
      split: if_splits)

lemma shown_lines_none: "\<not> shows_lines ev \<Longrightarrow> shown_lines ev = []"
  by (cases ev) (simp_all add: shows_lines_def)

text \<open>
  Claim C2. The lines of quantity \<open>\<le> 0\<close> are left out before the total is taken:
  the net subtotal of the summary is the sum of \<open>quantity \<times> unit price\<close> over
  exactly the collected lines of quantity \<open>> 0\<close>; the table, the exported sheet and
  the offer text each show exactly these lines, so none of quantity 0.
\<close>

theorem zero_quantity_lines_excluded:
  assumes "collect_lines df nc pc sel 0 [] = Inr (total_net, package_lines)"
  shows "(\<forall>s. StSummary s \<in> set (summary_section package_lines d v) \<longrightarrow>
            net_sum s = (\<Sum>l\<leftarrow>filter (\<lambda>l. 0 < Menge l) package_lines.
                           real_of_int (Menge l) * Einzelpreis l))
       \<and> (\<forall>ev\<in>set (summary_section package_lines d v). shows_lines ev \<longrightarrow>
            shown_lines ev = table_rows (filter (\<lambda>l. 0 < Menge l) package_lines))
       \<and> (\<forall>ev\<in>set (summary_section package_lines d v).
            \<forall>(a, q, p, z)\<in>set (shown_lines ev). 0 < q)"
proof -
  from collect_lines_Inr [OF assms] have
    zn: "\<forall>l\<in>set package_lines. ZeileNetto l = real_of_int (Menge l) * Einzelpreis l"
    by auto
  have sum_eq: "sum_list (map ZeileNetto (package_df package_lines)) =
        (\<Sum>l\<leftarrow>filter (\<lambda>l. 0 < Menge l) package_lines. real_of_int (Menge l) * Einzelpreis l)"
    unfolding package_df_def using zn by (induction package_lines) simp_all
  have a: "\<forall>s. StSummary s \<in> set (summary_section package_lines d v) \<longrightarrow>
            net_sum s = (\<Sum>l\<leftarrow>filter (\<lambda>l. 0 < Menge l) package_lines.
                           real_of_int (Menge l) * Einzelpreis l)"
    using summary_section_summary sum_eq net_sum_compute by fastforce
  have b: "\<forall>ev\<in>set (summary_section package_lines d v). shows_lines ev \<longrightarrow>
            shown_lines ev = table_rows (filter (\<lambda>l. 0 < Menge l) package_lines)"
    using shown_lines_summary_section by (simp add: package_df_def)
  have c: "\<forall>ev\<in>set (summary_section package_lines d v).
            \<forall>(a, q, p, z)\<in>set (shown_lines ev). 0 < q"
  proof
    fix ev assume ev: "ev \<in> set (summary_section package_lines d v)"
    show "\<forall>(a, q, p, z)\<in>set (shown_lines ev). 0 < q"
    proof (cases "shows_lines ev")
      case True
      with b ev have "shown_lines ev = table_rows (filter (\<lambda>l. 0 < Menge l) package_lines)"
        by blast
      then show ?thesis by (auto simp: table_rows_def)
    next
      case False
      then show ?thesis by (simp add: shown_lines_none)
    qed
  qed
  from a b c show ?thesis by blast
qed

text \<open>
  Scenario C: two tables and a chair line of quantity 0. The summary counts the tables
  only, and the sheet offered for download has the table row alone.
\<close>

theorem zero_quantity_lines_excluded_witness:
  "collect_lines scenario_catalog (Some hdr_Artikel) (Some hdr_Preis)
      [(Txt Tisch, 2), (Txt Stuhl, 0)] 0 [] =
     Inr (20, [make_line (Txt Tisch) 2 10, make_line (Txt Stuhl) 0 5])
   \<and> StSummary (compute_summary [make_line (Txt Tisch) 2 10] 0 19)
      \<in> set (summary_section [make_line (Txt Tisch) 2 10, make_line (Txt Stuhl) 0 5] 0 19)
   \<and> net_sum (compute_summary [make_line (Txt Tisch) 2 10] 0 19) = 20
   \<and> StDownloadXlsx (export_df [make_line (Txt Tisch) 2 10] 0 19
         (compute_summary [make_line (Txt Tisch) 2 10] 0 19))
      \<in> set (summary_section [make_line (Txt Tisch) 2 10, make_line (Txt Stuhl) 0 5] 0 19)
   \<and> shown_lines (StDownloadXlsx (export_df [make_line (Txt Tisch) 2 10] 0 19
         (compute_summary [make_line (Txt Tisch) 2 10] 0 19)))
      = [(Txt Tisch, 2, 10, 20)]"
proof -
  let ?L = "[make_line (Txt Tisch) 2 10, make_line (Txt Stuhl) 0 5]"
  let ?S = "compute_summary [make_line (Txt Tisch) 2 10] 0 19"
  let ?X = "StDownloadXlsx (export_df [make_line (Txt Tisch) 2 10] 0 19 ?S)"
  have h: "collect_lines scenario_catalog (Some hdr_Artikel) (Some hdr_Preis)
      [(Txt Tisch, 2), (Txt Stuhl, 0)] 0 [] = Inr (20, ?L)"
    by (rule scenario_C_lines)
  have pdf: "package_df ?L = [make_line (Txt Tisch) 2 10]"
    by (simp add: package_df_def make_line_def)
  have s: "StSummary ?S \<in> set (summary_section ?L 0 19)"
    by (simp add: summary_section_def pdf Let_def)
  have x: "?X \<in> set (summary_section ?L 0 19)"
    by (simp add: summary_section_def pdf Let_def)
  have sx: "shows_lines ?X" by (simp add: shows_lines_def)
  note t = zero_quantity_lines_excluded [OF h, of 0 19]
  from t s have "net_sum ?S = (\<Sum>l\<leftarrow>filter (\<lambda>l. 0 < Menge l) ?L.
      real_of_int (Menge l) * Einzelpreis l)"
    by blast
  then have n: "net_sum ?S = 20" by (simp add: make_line_def)
  from t x sx have "shown_lines ?X = table_rows (filter (\<lambda>l. 0 < Menge l) ?L)"
    by blast
  then have l: "shown_lines ?X = [(Txt Tisch, 2, 10, 20)]"
    by (simp add: make_line_def table_rows_def)
  from h s n x l show ?thesis by blast
qed

section \<open>Properties of the loader\<close>

subsection \<open>Strings and labels\<close>

lemma starts_with_prefix: "starts_with hay needle \<longleftrightarrow> prefix needle hay"
  by (induction hay needle rule: starts_with.induct) auto

lemma str_in_sublist: "str_in needle hay \<longleftrightarrow> sublist needle hay"
  by (induction hay) (simp_all add: starts_with_prefix sublist_Cons_right)

lemma scan_price_col_find: "scan_price_col lower cols = find (price_header lower) cols"
  by (induction cols) simp_all

lemma scan_price_col_Some:
  "scan_price_col lower cols = Some c \<longleftrightarrow>
     (\<exists>i<length cols. price_header lower (cols ! i) \<and> c = cols ! i
        \<and> (\<forall>j<i. \<not> price_header lower (cols ! j)))"
  by (simp add: scan_price_col_find find_Some_iff)

lemma scan_price_col_None:
  "scan_price_col lower cols = None \<longleftrightarrow> (\<forall>c\<in>set cols. \<not> price_header lower c)"
  by (induction cols) simp_all

lemma scan_price_col_mem: "scan_price_col lower cols = Some l \<Longrightarrow> l \<in> set cols"
  by (induction cols) (auto split: if_splits)

lemma detect_price_col_mem:
  assumes "detect_price_col lower cols = Some l"
  shows "l \<in> set cols"
proof (cases "scan_price_col lower cols")
  case None
  with assms have "2 \<le> length cols" "l = last cols"
    by (auto simp: detect_price_col_def split: if_splits)
  then show ?thesis by (cases cols) auto
next
  case (Some c)
  with assms show ?thesis by (auto simp: detect_price_col_def dest: scan_price_col_mem)
qed

lemma col_index_Some: "col_index cols l = Some i \<Longrightarrow> i < length cols \<and> cols ! i = l"
  by (induction cols arbitrary: i) (auto split: if_splits)

lemma col_index_None: "col_index cols l = None \<longleftrightarrow> l \<notin> set cols"
  by (induction cols) auto

subsection \<open>What \<open>load_data\<close> returns\<close>

lemma load_data_Triple:
  "snd (load_data lower parse (Some df0)) = Inr (Triple df name_col price_col) \<Longrightarrow>
     name_col = detect_name_col (map strip (columns df0))
   \<and> price_col = detect_price_col lower (map strip (columns df0))
   \<and> clean_frame parse (df0\<lparr>columns := map strip (columns df0)\<rparr>) price_col = Inr df"
  by (auto simp: load_data_def Let_def map_sum_def split: sum.splits)

lemma clean_price_col_cases:
  assumes "l \<in> set (columns df)"
  shows "(1 < label_count (columns df) l \<longrightarrow> clean_price_col parse df l = Inl TypeError)
       \<and> (\<not> 1 < label_count (columns df) l \<longrightarrow>
            (\<exists>i. col_index (columns df) l = Some i \<and> clean_price_col parse df l =
               Inr (df\<lparr>rows := map (\<lambda>r. r[i := coerce_cell parse (r ! i)]) (rows df)\<rparr>)))"
proof -
  from assms obtain i where "col_index (columns df) l = Some i"
    using col_index_None [of "columns df" l] by (cases "col_index (columns df) l") auto
  then show ?thesis by (simp add: clean_price_col_def)
qed

text \<open>
  After a successful read \<open>load_data\<close> raises in one case only: the label found for
  the price column occurs more than once among the headers.
\<close>

lemma load_data_raises:
  "isl (snd (load_data lower parse (Some df0))) \<longleftrightarrow>
     (\<exists>l. detect_price_col lower (map strip (columns df0)) = Some l
        \<and> 1 < label_count (map strip (columns df0)) l)"
proof (cases "detect_price_col lower (map strip (columns df0))")
  case None
  then show ?thesis by (simp add: load_data_def Let_def clean_frame_def)
next
  case (Some l)
  let ?df = "df0\<lparr>columns := map strip (columns df0)\<rparr>"
  from detect_price_col_mem [OF Some] have "l \<in> set (columns ?df)" by simp
  from clean_price_col_cases [OF this, of parse] Some show ?thesis
    by (cases "1 < label_count (map strip (columns df0)) l")
      (auto simp: load_data_def Let_def clean_frame_def)
qed

lemma load_data_rows:
  assumes "snd (load_data lower parse (Some df0)) = Inr (Triple df n (Some l))"
  shows "\<exists>i. col_index (map strip (columns df0)) l = Some i
           \<and> columns df = map strip (columns df0)
           \<and> rows df = map (\<lambda>r. r[i := coerce_cell parse (r ! i)]) (rows df0)"
proof -
  let ?df = "df0\<lparr>columns := map strip (columns df0)\<rparr>"
  from load_data_Triple [OF assms]
  have p: "detect_price_col lower (map strip (columns df0)) = Some l"
    and c: "clean_price_col parse ?df l = Inr df"
    by (simp_all add: clean_frame_def)
  from detect_price_col_mem [OF p] have "l \<in> set (columns ?df)" by simp
  from clean_price_col_cases [OF this, of parse] c show ?thesis
    by (cases "1 < label_count (columns ?df) l") auto
qed

lemma coerce_cell_cases:
  "(to_numeric parse c = Some x \<longrightarrow> coerce_cell parse c = Num x)
   \<and> (to_numeric parse c = None \<longrightarrow> coerce_cell parse c = Num 0)"
  by (simp add: coerce_cell_def fillna0_def)

subsection \<open>The sample sheets, loaded\<close>

lemma strip_examples:
  "strip (32 # hdr_Artikel) = hdr_Artikel"
  "strip (hdr_Preis_pro_Tag @ [32]) = hdr_Preis_pro_Tag"
  "strip hdr_Preis = hdr_Preis" "strip hdr_Artikel = hdr_Artikel"
  by (simp_all add: strip_def isspace_def hdr_Artikel_def hdr_Preis_pro_Tag_def hdr_Preis_def)

lemma header_examples:
  "\<not> price_header ascii_lower hdr_Artikel" "price_header ascii_lower hdr_Preis_pro_Tag"
  "\<not> price_header ascii_lower hdr_Preis"
  by (simp_all add: price_header_def ascii_lower_def hdr_Artikel_def hdr_Preis_pro_Tag_def
      hdr_Preis_def kw_pro_def kw_stueck_def kw_set_def kw_euro_def)

lemma hdr_distinct:
  "hdr_Artikel \<noteq> hdr_Preis_pro_Tag" "hdr_Preis_pro_Tag \<noteq> hdr_Preis"
  "hdr_Artikel \<noteq> hdr_Preis"
  by (simp_all add: hdr_Artikel_def hdr_Preis_pro_Tag_def hdr_Preis_def)

lemma load_raw_catalog:
  "load_data ascii_lower parse_none (Some raw_catalog) =
     ([], Inr (Triple
        \<lparr>columns = [hdr_Artikel, hdr_Preis_pro_Tag, hdr_Preis],
         rows = [[Txt Tisch, Num 10, Num 12], [Txt Stuhl, Num 0, NaN]]\<rparr>
        (Some hdr_Artikel) (Some hdr_Preis_pro_Tag)))"
  using hdr_distinct
  by (simp add: load_data_def raw_catalog_def strip_examples header_examples
      detect_price_col_def detect_name_col_def clean_frame_def clean_price_col_def
      label_count_def coerce_cell_def fillna0_def parse_none_def Let_def)

lemma load_negative_catalog:
  "load_data ascii_lower parse_none (Some negative_catalog) =
     ([], Inr (Triple negative_catalog (Some hdr_Artikel) (Some hdr_Preis)))"
  using hdr_distinct
  by (simp add: load_data_def negative_catalog_def strip_examples header_examples
      detect_price_col_def detect_name_col_def clean_frame_def clean_price_col_def
      label_count_def coerce_cell_def fillna0_def parse_none_def Let_def)

lemma load_scenario_catalog:
  "load_data ascii_lower parse_none (Some scenario_catalog) =
     ([], Inr (Triple scenario_catalog (Some hdr_Artikel) (Some hdr_Preis)))"
  using hdr_distinct
  by (simp add: load_data_def scenario_catalog_def strip_examples header_examples
      detect_price_col_def detect_name_col_def clean_frame_def clean_price_col_def
      label_count_def coerce_cell_def fillna0_def parse_none_def Let_def)

lemma raw_catalog_cols:
  "map strip (columns raw_catalog) = [hdr_Artikel, hdr_Preis_pro_Tag, hdr_Preis]"
  by (simp add: raw_catalog_def strip_examples)

subsection \<open>The price column and the name column\<close>

text \<open>
  Claim C6. On the headers of a sheet, blanks trimmed, the price column returned is the
  first one, from the left, whose header in lower case contains \<open>pro\<close>,
  \<open>st\"uck\<close>, \<open>set\<close> or the euro sign; when no header does and there are at least
  two columns it is the last column (and none with fewer columns); the name column is
  the first column.
\<close>

theorem price_column_inference:
  assumes "snd (load_data lower parse (Some df0)) = Inr (Triple df name_col price_col)"
    and "cols = map strip (columns df0)"
  shows "(\<forall>i<length cols. price_header lower (cols ! i)
            \<and> (\<forall>j<i. \<not> price_header lower (cols ! j)) \<longrightarrow> price_col = Some (cols ! i))
       \<and> ((\<forall>c\<in>set cols. \<not> price_header lower c) \<and> 2 \<le> length cols
            \<longrightarrow> price_col = Some (last cols))
       \<and> ((\<forall>c\<in>set cols. \<not> price_header lower c) \<and> length cols < 2
            \<longrightarrow> price_col = None)
       \<and> (cols \<noteq> [] \<longrightarrow> name_col = Some (cols ! 0))
       \<and> (\<forall>c. price_header lower c \<longleftrightarrow>
            sublist kw_pro (lower c) \<or> sublist kw_stueck (lower c)
            \<or> sublist kw_set (lower c) \<or> sublist kw_euro (lower c))"
proof -
  from load_data_Triple [OF assms(1)] assms(2)
  have n: "name_col = detect_name_col cols" and p: "price_col = detect_price_col lower cols"
    by simp_all
  have a: "\<forall>i<length cols. price_header lower (cols ! i)
            \<and> (\<forall>j<i. \<not> price_header lower (cols ! j)) \<longrightarrow> price_col = Some (cols ! i)"
  proof (intro allI impI)
    fix i assume "i < length cols"
      and "price_header lower (cols ! i) \<and> (\<forall>j<i. \<not> price_header lower (cols ! j))"
    then have "scan_price_col lower cols = Some (cols ! i)"
      unfolding scan_price_col_Some by blast
    then show "price_col = Some (cols ! i)" by (simp add: p detect_price_col_def)
  qed
  have b: "(\<forall>c\<in>set cols. \<not> price_header lower c) \<and> 2 \<le> length cols
            \<longrightarrow> price_col = Some (last cols)"
    using scan_price_col_None [of lower cols] by (auto simp: p detect_price_col_def)
  have c: "(\<forall>c\<in>set cols. \<not> price_header lower c) \<and> length cols < 2
            \<longrightarrow> price_col = None"
    using scan_price_col_None [of lower cols] by (auto simp: p detect_price_col_def)
  have d: "cols \<noteq> [] \<longrightarrow> name_col = Some (cols ! 0)"
    by (cases cols) (simp_all add: n detect_name_col_def)
  have e: "\<forall>c. price_header lower c \<longleftrightarrow>
            sublist kw_pro (lower c) \<or> sublist kw_stueck (lower c)
            \<or> sublist kw_set (lower c) \<or> sublist kw_euro (lower c)"
    by (simp add: price_header_def Let_def str_in_sublist)
  from a b c d e show ?thesis by blast
qed

text \<open>
  The sheet with the headers \<open>Artikel\<close>, \<open>Preis pro Tag\<close> and \<open>Preis\<close>: the second
  column is the price column. The sheet with the headers \<open>Artikel\<close> and \<open>Preis\<close>:
  no keyword, the last column is.
\<close>

theorem price_column_inference_witness:
  "snd (load_data ascii_lower parse_none (Some raw_catalog)) =
     Inr (Triple
        \<lparr>columns = [hdr_Artikel, hdr_Preis_pro_Tag, hdr_Preis],
         rows = [[Txt Tisch, Num 10, Num 12], [Txt Stuhl, Num 0, NaN]]\<rparr>
        (Some hdr_Artikel) (Some hdr_Preis_pro_Tag))
   \<and> Some hdr_Preis_pro_Tag = Some (map strip (columns raw_catalog) ! 1)
   \<and> Some hdr_Artikel = Some (map strip (columns raw_catalog) ! 0)
   \<and> snd (load_data ascii_lower parse_none (Some negative_catalog)) =
       Inr (Triple negative_catalog (Some hdr_Artikel) (Some hdr_Preis))
   \<and> Some hdr_Preis = Some (last (map strip (columns negative_catalog)))"
proof -
  let ?cols = "map strip (columns raw_catalog)"
  have h: "snd (load_data ascii_lower parse_none (Some raw_catalog)) =
     Inr (Triple
        \<lparr>columns = [hdr_Artikel, hdr_Preis_pro_Tag, hdr_Preis],
         rows = [[Txt Tisch, Num 10, Num 12], [Txt Stuhl, Num 0, NaN]]\<rparr>
        (Some hdr_Artikel) (Some hdr_Preis_pro_Tag))"
    by (simp add: load_raw_catalog)
  note t = price_column_inference [OF h refl]
  have first: "price_header ascii_lower (?cols ! 1)
      \<and> (\<forall>j<1. \<not> price_header ascii_lower (?cols ! j))"
    by (simp add: raw_catalog_cols header_examples)
  have "(1 :: nat) < length ?cols" by (simp add: raw_catalog_cols)
  with t first have p: "Some hdr_Preis_pro_Tag = Some (?cols ! 1)" by blast
  have "?cols \<noteq> []" by (simp add: raw_catalog_cols)
  with t have n: "Some hdr_Artikel = Some (?cols ! 0)" by blast
  let ?cols' = "map strip (columns negative_catalog)"
  have h': "snd (load_data ascii_lower parse_none (Some negative_catalog)) =
       Inr (Triple negative_catalog (Some hdr_Artikel) (Some hdr_Preis))"
    by (simp add: load_negative_catalog)
  note t' = price_column_inference [OF h' refl]
  have c': "?cols' = [hdr_Artikel, hdr_Preis]"
    by (simp add: negative_catalog_def strip_examples)
  have "(\<forall>c\<in>set ?cols'. \<not> price_header ascii_lower c) \<and> 2 \<le> length ?cols'"
    by (simp add: c' header_examples)
  with t' have l: "Some hdr_Preis = Some (last ?cols')" by blast
  from h p n h' l show ?thesis by blast
qed

subsection \<open>Price cells\<close>

lemma strip_Preis_pro_Tag: "strip hdr_Preis_pro_Tag = hdr_Preis_pro_Tag"
  by (simp add: strip_def isspace_def hdr_Preis_pro_Tag_def)

lemma load_text_catalog:
  "load_data ascii_lower parse_sample (Some text_catalog) =
     ([], Inr (Triple text_catalog_loaded (Some hdr_Artikel) (Some hdr_Preis_pro_Tag)))"
  using hdr_distinct
  by (simp add: load_data_def text_catalog_def text_catalog_loaded_def strip_examples
      strip_Preis_pro_Tag header_examples detect_price_col_def detect_name_col_def clean_frame_def
      clean_price_col_def label_count_def coerce_cell_def fillna0_def parse_sample_def
      str_12_5_def str_na_def Let_def)

lemma text_catalog_cols:
  "map strip (columns text_catalog) = [hdr_Artikel, hdr_Preis_pro_Tag]"
  by (simp add: text_catalog_def strip_examples strip_Preis_pro_Tag)

text \<open>
  The cell that line 38 puts in the place of a price cell, by the kind of the cell: a
  number stays, a text becomes the number the parser of pandas reads from it, or 0 when
  it reads none, and a missing cell becomes 0.
\<close>

lemma coerce_cell_kinds:
  "coerce_cell parse (Num x) = Num x"
  "parse s = Some x \<Longrightarrow> coerce_cell parse (Txt s) = Num x"
  "parse s = None \<Longrightarrow> coerce_cell parse (Txt s) = Num 0"
  "coerce_cell parse NaN = Num 0"
  by (simp_all add: coerce_cell_def fillna0_def)

text \<open>
  Claim C7. A cell of the price column that is a number is loaded as that number, a
  text that the number parser reads as a number is loaded as that number, and a text
  that it does not read as a number, or a missing cell, is loaded as 0. No cell makes
  \<open>load_data\<close> raise: whether it raises is a matter of the headers alone. When it
  returns, every row of the sheet is there and the cells of the other columns are as
  they were.
\<close>

theorem price_cells_coerced:
  assumes "cols = map strip (columns df0)"
  shows "(isl (snd (load_data lower parse (Some df0))) \<longleftrightarrow>
            (\<exists>l. detect_price_col lower cols = Some l \<and> 1 < label_count cols l))
       \<and> (\<forall>df n l. snd (load_data lower parse (Some df0)) = Inr (Triple df n (Some l))
              \<and> (\<forall>r\<in>set (rows df0). length r = length cols) \<longrightarrow>
            (\<exists>i<length cols. col_index cols l = Some i
               \<and> length (rows df) = length (rows df0)
               \<and> (\<forall>k<length (rows df0).
                    (\<forall>j<length cols. j \<noteq> i \<longrightarrow> rows df ! k ! j = rows df0 ! k ! j)
                  \<and> (\<forall>x. rows df0 ! k ! i = Num x \<longrightarrow> rows df ! k ! i = Num x)
                  \<and> (\<forall>s x. rows df0 ! k ! i = Txt s \<and> parse s = Some x \<longrightarrow>
                        rows df ! k ! i = Num x)
                  \<and> (\<forall>s. rows df0 ! k ! i = Txt s \<and> parse s = None \<longrightarrow>
                        rows df ! k ! i = Num 0)
                  \<and> (rows df0 ! k ! i = NaN \<longrightarrow> rows df ! k ! i = Num 0)
                  \<and> (\<forall>x. to_numeric parse (rows df0 ! k ! i) = Some x \<longrightarrow>
                        rows df ! k ! i = Num x)
                  \<and> (to_numeric parse (rows df0 ! k ! i) = None \<longrightarrow>
                        rows df ! k ! i = Num 0))))"
proof (intro conjI allI impI)
  show "isl (snd (load_data lower parse (Some df0))) \<longleftrightarrow>
            (\<exists>l. detect_price_col lower cols = Some l \<and> 1 < label_count cols l)"
    by (simp add: assms load_data_raises)
next
  fix df n l
  assume a: "snd (load_data lower parse (Some df0)) = Inr (Triple df n (Some l))
              \<and> (\<forall>r\<in>set (rows df0). length r = length cols)"
  from load_data_rows [of lower parse df0 df n l] a assms obtain i where
    i: "col_index cols l = Some i"
    and r: "rows df = map (\<lambda>r. r[i := coerce_cell parse (r ! i)]) (rows df0)"
    by auto
  from col_index_Some [OF i] have il: "i < length cols" by simp
  have "\<forall>k<length (rows df0).
          (\<forall>j<length cols. j \<noteq> i \<longrightarrow> rows df ! k ! j = rows df0 ! k ! j)
        \<and> (\<forall>x. rows df0 ! k ! i = Num x \<longrightarrow> rows df ! k ! i = Num x)
        \<and> (\<forall>s x. rows df0 ! k ! i = Txt s \<and> parse s = Some x \<longrightarrow> rows df ! k ! i = Num x)
        \<and> (\<forall>s. rows df0 ! k ! i = Txt s \<and> parse s = None \<longrightarrow> rows df ! k ! i = Num 0)
        \<and> (rows df0 ! k ! i = NaN \<longrightarrow> rows df ! k ! i = Num 0)
        \<and> (\<forall>x. to_numeric parse (rows df0 ! k ! i) = Some x \<longrightarrow> rows df ! k ! i = Num x)
        \<and> (to_numeric parse (rows df0 ! k ! i) = None \<longrightarrow> rows df ! k ! i = Num 0)"
  proof (intro allI impI)
    fix k assume k: "k < length (rows df0)"
    then have "rows df0 ! k \<in> set (rows df0)" by simp
    with a have len: "length (rows df0 ! k) = length cols" by blast
    from k r have rk: "rows df ! k = (rows df0 ! k)[i := coerce_cell parse (rows df0 ! k ! i)]"
      by simp
    have at: "rows df ! k ! i = coerce_cell parse (rows df0 ! k ! i)"
      using rk il len by simp
    have others: "\<forall>j<length cols. j \<noteq> i \<longrightarrow> rows df ! k ! j = rows df0 ! k ! j"
      using rk by simp
    show "(\<forall>j<length cols. j \<noteq> i \<longrightarrow> rows df ! k ! j = rows df0 ! k ! j)
        \<and> (\<forall>x. rows df0 ! k ! i = Num x \<longrightarrow> rows df ! k ! i = Num x)
        \<and> (\<forall>s x. rows df0 ! k ! i = Txt s \<and> parse s = Some x \<longrightarrow> rows df ! k ! i = Num x)
        \<and> (\<forall>s. rows df0 ! k ! i = Txt s \<and> parse s = None \<longrightarrow> rows df ! k ! i = Num 0)
        \<and> (rows df0 ! k ! i = NaN \<longrightarrow> rows df ! k ! i = Num 0)
        \<and> (\<forall>x. to_numeric parse (rows df0 ! k ! i) = Some x \<longrightarrow> rows df ! k ! i = Num x)
        \<and> (to_numeric parse (rows df0 ! k ! i) = None \<longrightarrow> rows df ! k ! i = Num 0)"
      using others at coerce_cell_cases [of parse "rows df0 ! k ! i"]
      by (auto simp: coerce_cell_kinds)
  qed
  with i il r show "\<exists>i<length cols. col_index cols l = Some i
               \<and> length (rows df) = length (rows df0)
               \<and> (\<forall>k<length (rows df0).
                    (\<forall>j<length cols. j \<noteq> i \<longrightarrow> rows df ! k ! j = rows df0 ! k ! j)
                  \<and> (\<forall>x. rows df0 ! k ! i = Num x \<longrightarrow> rows df ! k ! i = Num x)
                  \<and> (\<forall>s x. rows df0 ! k ! i = Txt s \<and> parse s = Some x \<longrightarrow>
                        rows df ! k ! i = Num x)
                  \<and> (\<forall>s. rows df0 ! k ! i = Txt s \<and> parse s = None \<longrightarrow>
                        rows df ! k ! i = Num 0)
                  \<and> (rows df0 ! k ! i = NaN \<longrightarrow> rows df ! k ! i = Num 0)
                  \<and> (\<forall>x. to_numeric parse (rows df0 ! k ! i) = Some x \<longrightarrow>
                        rows df ! k ! i = Num x)
                  \<and> (to_numeric parse (rows df0 ! k ! i) = None \<longrightarrow>
                        rows df ! k ! i = Num 0))"
    by (intro exI [of _ i]) simp
qed

text \<open>
  On the sheet with the four kinds of price cell: nothing is raised, the text \<open>12.5\<close>
  of the table is loaded as 12.5, the text \<open>n/a\<close> of the chair (scenario D) as 0, the
  number 7 of the bench stays, the missing price of the shelf becomes 0, and the name
  of the chair stays.
\<close>

theorem price_cells_coerced_witness:
  "\<not> isl (snd (load_data ascii_lower parse_sample (Some text_catalog)))
   \<and> snd (load_data ascii_lower parse_sample (Some text_catalog)) =
       Inr (Triple text_catalog_loaded (Some hdr_Artikel) (Some hdr_Preis_pro_Tag))
   \<and> rows text_catalog ! 0 ! 1 = Txt str_12_5 \<and> parse_sample str_12_5 = Some (25 / 2)
   \<and> rows text_catalog_loaded ! 0 ! 1 = Num (25 / 2)
   \<and> rows text_catalog ! 1 ! 1 = Txt str_na \<and> parse_sample str_na = None
   \<and> rows text_catalog_loaded ! 1 ! 1 = Num 0
   \<and> rows text_catalog ! 2 ! 1 = Num 7
   \<and> rows text_catalog_loaded ! 2 ! 1 = Num 7
   \<and> rows text_catalog ! 3 ! 1 = NaN
   \<and> rows text_catalog_loaded ! 3 ! 1 = Num 0
   \<and> rows text_catalog_loaded ! 1 ! 0 = Txt Stuhl"
proof -
  let ?cols = "map strip (columns text_catalog)"
  let ?F = "text_catalog_loaded"
  note t = price_cells_coerced [of ?cols text_catalog ascii_lower parse_sample, OF refl]
  have h: "snd (load_data ascii_lower parse_sample (Some text_catalog)) =
       Inr (Triple ?F (Some hdr_Artikel) (Some hdr_Preis_pro_Tag))"
    by (simp add: load_text_catalog)
  have rect: "\<forall>r\<in>set (rows text_catalog). length r = length ?cols"
    by (simp add: text_catalog_def)
  have idx: "col_index ?cols hdr_Preis_pro_Tag = Some 1"
    using hdr_distinct by (simp add: text_catalog_cols)
  have det: "detect_price_col ascii_lower ?cols = Some hdr_Preis_pro_Tag"
    by (simp add: text_catalog_cols detect_price_col_def header_examples)
  have cnt: "label_count ?cols hdr_Preis_pro_Tag = 1"
    using hdr_distinct by (simp add: text_catalog_cols label_count_def)
  from t det cnt have a: "\<not> isl (snd (load_data ascii_lower parse_sample (Some text_catalog)))"
    by simp
  from t h rect obtain i where
    i: "col_index ?cols hdr_Preis_pro_Tag = Some i"
    and cells: "\<forall>k<length (rows text_catalog).
          (\<forall>j<length ?cols. j \<noteq> i \<longrightarrow> rows ?F ! k ! j = rows text_catalog ! k ! j)
        \<and> (\<forall>x. rows text_catalog ! k ! i = Num x \<longrightarrow> rows ?F ! k ! i = Num x)
        \<and> (\<forall>s x. rows text_catalog ! k ! i = Txt s \<and> parse_sample s = Some x \<longrightarrow>
              rows ?F ! k ! i = Num x)
        \<and> (\<forall>s. rows text_catalog ! k ! i = Txt s \<and> parse_sample s = None \<longrightarrow>
              rows ?F ! k ! i = Num 0)
        \<and> (rows text_catalog ! k ! i = NaN \<longrightarrow> rows ?F ! k ! i = Num 0)
        \<and> (\<forall>x. to_numeric parse_sample (rows text_catalog ! k ! i) = Some x \<longrightarrow>
              rows ?F ! k ! i = Num x)
        \<and> (to_numeric parse_sample (rows text_catalog ! k ! i) = None \<longrightarrow>
              rows ?F ! k ! i = Num 0)"
    by blast
  from i idx have i1: "i = 1" by simp
  have len: "length (rows text_catalog) = 4" by (simp add: text_catalog_def)
  have c0: "rows text_catalog ! 0 ! 1 = Txt str_12_5" by (simp add: text_catalog_def)
  have c1: "rows text_catalog ! 1 ! 1 = Txt str_na" by (simp add: text_catalog_def)
  have c2: "rows text_catalog ! 2 ! 1 = Num 7" by (simp add: text_catalog_def)
  have c3: "rows text_catalog ! 3 ! 1 = NaN" by (simp add: text_catalog_def)
  have p0: "parse_sample str_12_5 = Some (25 / 2)" by (simp add: parse_sample_def)
  have p1: "parse_sample str_na = None"
    by (simp add: parse_sample_def str_na_def str_12_5_def)
  have k: "(0 :: nat) < 4" "(1 :: nat) < 4" "(2 :: nat) < 4" "(3 :: nat) < 4" by simp_all
  from cells k(1) c0 p0 have r0: "rows ?F ! 0 ! 1 = Num (25 / 2)" unfolding len i1 by blast
  from cells k(2) c1 p1 have r1: "rows ?F ! 1 ! 1 = Num 0" unfolding len i1 by blast
  from cells k(3) c2 have r2: "rows ?F ! 2 ! 1 = Num 7" unfolding len i1 by blast
  from cells k(4) c3 have r3: "rows ?F ! 3 ! 1 = Num 0" unfolding len i1 by blast
  have "(0 :: nat) < length ?cols" "(0 :: nat) \<noteq> 1" by (simp_all add: text_catalog_cols)
  with cells k(2) have "rows ?F ! 1 ! 0 = rows text_catalog ! 1 ! 0" unfolding len i1 by blast
  then have n1: "rows ?F ! 1 ! 0 = Txt Stuhl" by (simp add: text_catalog_def)
  from a h c0 p0 r0 c1 p1 r1 c2 r2 c3 r3 n1 show ?thesis by blast
qed

subsection \<open>The sign of a loaded price\<close>

text \<open>
  Claim C4, as stated: after loading, every unit price is at least 0. It fails on a
  sheet whose price cell is the number \<open>- 5\<close>: the loader keeps the cell, and the
  unit price the package computation reads from it is \<open>- 5\<close>.
\<close>

theorem negative_price_kept:
  "snd (load_data ascii_lower parse_none (Some negative_catalog)) =
     Inr (Triple negative_catalog (Some hdr_Artikel) (Some hdr_Preis))
   \<and> unit_price negative_catalog (Some hdr_Preis) (rows negative_catalog ! 0) = Inr (- 5)
   \<and> (- 5 :: real) < 0"
  using hdr_distinct
  by (simp add: load_negative_catalog)
     (simp add: negative_catalog_def unit_price_def float_of_def)

text \<open>
  Claim C4, amended. After loading, the unit price read from a row is the number of
  its price cell when the cell is a number (a negative number stays negative), the
  number read from the text when the cell is a text that the number parser reads as a
  number, and 0 when the cell is a text that does not read as a number or is missing.
  So every unit price is at least 0 provided every number in the price column, and
  every number read from a text there, is at least 0.
\<close>

theorem loaded_prices_nonneg:
  assumes load: "snd (load_data lower parse (Some df0)) = Inr (Triple df n (Some l))"
    and rect: "\<forall>r\<in>set (rows df0). length r = length (columns df0)"
    and idx: "col_index (map strip (columns df0)) l = Some i"
  shows "length (rows df) = length (rows df0)
       \<and> (\<forall>k<length (rows df0).
            (\<forall>x. rows df0 ! k ! i = Num x \<longrightarrow>
               unit_price df (Some l) (rows df ! k) = Inr x)
          \<and> (\<forall>s x. rows df0 ! k ! i = Txt s \<and> parse s = Some x \<longrightarrow>
               unit_price df (Some l) (rows df ! k) = Inr x)
          \<and> (\<forall>s. rows df0 ! k ! i = Txt s \<and> parse s = None \<longrightarrow>
               unit_price df (Some l) (rows df ! k) = Inr 0)
          \<and> (rows df0 ! k ! i = NaN \<longrightarrow>
               unit_price df (Some l) (rows df ! k) = Inr 0))
       \<and> ((\<forall>r\<in>set (rows df0).
              (\<forall>x. r ! i = Num x \<longrightarrow> 0 \<le> x)
            \<and> (\<forall>s x. r ! i = Txt s \<and> parse s = Some x \<longrightarrow> 0 \<le> x)) \<longrightarrow>
           (\<forall>r\<in>set (rows df). \<exists>x. unit_price df (Some l) r = Inr x \<and> 0 \<le> x))"
proof -
  from load_data_rows [OF load] idx have
    c: "columns df = map strip (columns df0)"
    and r: "rows df = map (\<lambda>r. r[i := coerce_cell parse (r ! i)]) (rows df0)"
    by auto
  from col_index_Some [OF idx] have il: "i < length (columns df0)" by simp
  have up: "unit_price df (Some l) (r0[i := coerce_cell parse (r0 ! i)])
        = Inr (fillna0 (to_numeric parse (r0 ! i)))" if "r0 \<in> set (rows df0)" for r0
  proof -
    from that rect il have "i < length r0" by simp
    then show ?thesis by (simp add: unit_price_def c idx float_of_def coerce_cell_def)
  qed
  have a: "length (rows df) = length (rows df0)" by (simp add: r)
  have b: "\<forall>k<length (rows df0).
            (\<forall>x. rows df0 ! k ! i = Num x \<longrightarrow>
               unit_price df (Some l) (rows df ! k) = Inr x)
          \<and> (\<forall>s x. rows df0 ! k ! i = Txt s \<and> parse s = Some x \<longrightarrow>
               unit_price df (Some l) (rows df ! k) = Inr x)
          \<and> (\<forall>s. rows df0 ! k ! i = Txt s \<and> parse s = None \<longrightarrow>
               unit_price df (Some l) (rows df ! k) = Inr 0)
          \<and> (rows df0 ! k ! i = NaN \<longrightarrow>
               unit_price df (Some l) (rows df ! k) = Inr 0)"
  proof (intro allI impI)
    fix k assume k: "k < length (rows df0)"
    then have "rows df0 ! k \<in> set (rows df0)" by simp
    from up [OF this] k r
    have "unit_price df (Some l) (rows df ! k)
        = Inr (fillna0 (to_numeric parse (rows df0 ! k ! i)))"
      by simp
    then show "(\<forall>x. rows df0 ! k ! i = Num x \<longrightarrow>
               unit_price df (Some l) (rows df ! k) = Inr x)
          \<and> (\<forall>s x. rows df0 ! k ! i = Txt s \<and> parse s = Some x \<longrightarrow>
               unit_price df (Some l) (rows df ! k) = Inr x)
          \<and> (\<forall>s. rows df0 ! k ! i = Txt s \<and> parse s = None \<longrightarrow>
               unit_price df (Some l) (rows df ! k) = Inr 0)
          \<and> (rows df0 ! k ! i = NaN \<longrightarrow>
               unit_price df (Some l) (rows df ! k) = Inr 0)"
      by (auto simp: fillna0_def)
  qed
  have d: "(\<forall>r\<in>set (rows df0).
              (\<forall>x. r ! i = Num x \<longrightarrow> 0 \<le> x)
            \<and> (\<forall>s x. r ! i = Txt s \<and> parse s = Some x \<longrightarrow> 0 \<le> x)) \<longrightarrow>
           (\<forall>r\<in>set (rows df). \<exists>x. unit_price df (Some l) r = Inr x \<and> 0 \<le> x)"
  proof (intro impI ballI)
    fix row
    assume nonneg: "\<forall>r\<in>set (rows df0).
              (\<forall>x. r ! i = Num x \<longrightarrow> 0 \<le> x)
            \<and> (\<forall>s x. r ! i = Txt s \<and> parse s = Some x \<longrightarrow> 0 \<le> x)"
      and "row \<in> set (rows df)"
    with r obtain r0 where r0: "r0 \<in> set (rows df0)" "row = r0[i := coerce_cell parse (r0 ! i)]"
      by auto
    from nonneg r0(1) have "0 \<le> fillna0 (to_numeric parse (r0 ! i))"
      by (cases "r0 ! i"; cases "to_numeric parse (r0 ! i)") (auto simp: fillna0_def)
    with up [OF r0(1)] r0(2) show "\<exists>x. unit_price df (Some l) row = Inr x \<and> 0 \<le> x"
      by simp
  qed
  from a b d show ?thesis by blast
qed

text \<open>
  On the sheet with the four kinds of price cell, none of them negative: the unit
  prices read after loading are 12.5, 0, 7 and 0.
\<close>

theorem loaded_prices_nonneg_witness:
  "snd (load_data ascii_lower parse_sample (Some text_catalog)) =
     Inr (Triple text_catalog_loaded (Some hdr_Artikel) (Some hdr_Preis_pro_Tag))
   \<and> col_index (map strip (columns text_catalog)) hdr_Preis_pro_Tag = Some 1
   \<and> unit_price text_catalog_loaded (Some hdr_Preis_pro_Tag) (rows text_catalog_loaded ! 0)
       = Inr (25 / 2)
   \<and> unit_price text_catalog_loaded (Some hdr_Preis_pro_Tag) (rows text_catalog_loaded ! 1)
       = Inr 0
   \<and> unit_price text_catalog_loaded (Some hdr_Preis_pro_Tag) (rows text_catalog_loaded ! 2)
       = Inr 7
   \<and> unit_price text_catalog_loaded (Some hdr_Preis_pro_Tag) (rows text_catalog_loaded ! 3)
       = Inr 0
   \<and> (\<exists>x. unit_price text_catalog_loaded (Some hdr_Preis_pro_Tag) [Txt Bank, Num 7] = Inr x
          \<and> 0 \<le> x)"
proof -
  let ?F = "text_catalog_loaded"
  let ?P = "Some hdr_Preis_pro_Tag"
  have h: "snd (load_data ascii_lower parse_sample (Some text_catalog)) =
       Inr (Triple ?F (Some hdr_Artikel) ?P)"
    by (simp add: load_text_catalog)
  have rect: "\<forall>r\<in>set (rows text_catalog). length r = length (columns text_catalog)"
    by (simp add: text_catalog_def)
  have idx: "col_index (map strip (columns text_catalog)) hdr_Preis_pro_Tag = Some 1"
    using hdr_distinct by (simp add: text_catalog_cols)
  note t = loaded_prices_nonneg [OF h rect idx]
  have len: "length (rows text_catalog) = 4" by (simp add: text_catalog_def)
  have c0: "rows text_catalog ! 0 ! 1 = Txt str_12_5" by (simp add: text_catalog_def)
  have c1: "rows text_catalog ! 1 ! 1 = Txt str_na" by (simp add: text_catalog_def)
  have c2: "rows text_catalog ! 2 ! 1 = Num 7" by (simp add: text_catalog_def)
  have c3: "rows text_catalog ! 3 ! 1 = NaN" by (simp add: text_catalog_def)
  have p0: "parse_sample str_12_5 = Some (25 / 2)" by (simp add: parse_sample_def)
  have p1: "parse_sample str_na = None"
    by (simp add: parse_sample_def str_na_def str_12_5_def)
  have k: "(0 :: nat) < 4" "(1 :: nat) < 4" "(2 :: nat) < 4" "(3 :: nat) < 4" by simp_all
  from t k(1) c0 p0 have r0: "unit_price ?F ?P (rows ?F ! 0) = Inr (25 / 2)"
    unfolding len by blast
  from t k(2) c1 p1 have r1: "unit_price ?F ?P (rows ?F ! 1) = Inr 0"
    unfolding len by blast
  from t k(3) c2 have r2: "unit_price ?F ?P (rows ?F ! 2) = Inr 7"
    unfolding len by blast
  from t k(4) c3 have r3: "unit_price ?F ?P (rows ?F ! 3) = Inr 0"
    unfolding len by blast
  have nonneg: "\<forall>r\<in>set (rows text_catalog).
              (\<forall>x. r ! 1 = Num x \<longrightarrow> 0 \<le> x)
            \<and> (\<forall>s x. r ! 1 = Txt s \<and> parse_sample s = Some x \<longrightarrow> 0 \<le> x)"
    by (simp add: text_catalog_def parse_sample_def)
  have "[Txt Bank, Num 7] \<in> set (rows ?F)" by (simp add: text_catalog_loaded_def)
  with t nonneg have e: "\<exists>x. unit_price ?F ?P [Txt Bank, Num 7] = Inr x \<and> 0 \<le> x"
    by blast
  from h idx r0 r1 r2 r3 e show ?thesis by blast
qed

section \<open>Properties of a whole run\<close>

subsection \<open>A sheet that cannot be read\<close>

text \<open>
  Claim C8. When the sheet cannot be read, \<open>load_data\<close> shows an error and returns
  the empty frame; the script shows the warning and stops there: the run ends by
  \<open>st.stop()\<close>, not by an exception, no selection is offered, and nothing is written.
\<close>

theorem load_failure_halts:
  assumes "read_excel excel fs cwd default_path = None"
  shows "load_data lower parse (read_excel excel fs cwd default_path)
           = ([StError], Inr (Bare DataFrame_empty))
       \<and> run lower parse excel cwd fs inp = ([StError, StWarningNoData], Halted, fs)
       \<and> (\<forall>opts. StMultiselect opts \<notin> set (fst (run lower parse excel cwd fs inp)))"
  by (simp add: assms run_def startup_def load_data_def unpack_def guard_def df_empty_def
      DataFrame_empty_def)

text \<open>Scenario E, on a disk without the file.\<close>

theorem load_failure_halts_witness:
  "read_excel Some Map.empty ''/mnt/data'' default_path = None
   \<and> run ascii_lower parse_none Some ''/mnt/data'' Map.empty
        \<lparr>mwst_pct = 19, discount_pct = 0, selected = [(Txt Tisch, 1)], uploaded = None\<rparr>
      = ([StError, StWarningNoData], Halted, Map.empty)"
proof -
  have h: "read_excel Some (Map.empty :: string \<rightharpoonup> frame) ''/mnt/data'' default_path = None"
    by (simp add: read_excel_def)
  from h load_failure_halts [OF h] show ?thesis by blast
qed

subsection \<open>The uploaded sheet\<close>

text \<open>
  The file that \<open>load_data\<close> reads is never the file that the upload writes: the
  default path ends in \<open>/Miete.xlsx\<close> whatever the working directory, the upload path
  in \<open>_uploaded.xlsx\<close>. So no run changes what the next run loads.
\<close>

lemma default_not_upload: "abspath cwd default_path \<noteq> upload_path"
proof
  assume "abspath cwd default_path = upload_path"
  then have "cwd @ ''/Miete.xlsx'' = ''/mnt/data/Miete_uploaded.xlsx''"
    by (simp add: abspath_def default_path_def upload_path_def)
  then have "suffix ''/Miete.xlsx'' ''/mnt/data/Miete_uploaded.xlsx''"
    by (metis suffixI)
  then show False by (simp add: suffix_to_prefix)
qed

lemma upload_section_keeps_default:
  "snd (upload_section excel fs up) (abspath cwd default_path) = fs (abspath cwd default_path)"
  using default_not_upload [of cwd]
  by (auto simp: upload_section_def split: option.splits)

lemma run_fs:
  "snd (snd (run lower parse excel cwd fs inp)) = fs
   \<or> snd (snd (run lower parse excel cwd fs inp)) = snd (upload_section excel fs (uploaded inp))"
  by (auto simp: run_def after_startup_def split: prod.splits startup_result.splits sum.splits)

lemma reload_reads_same_file:
  "read_excel excel (snd (snd (run lower parse excel cwd fs inp))) cwd default_path
     = read_excel excel fs cwd default_path"
  using run_fs [of lower parse excel cwd fs inp]
    upload_section_keeps_default [of excel fs "uploaded inp" cwd]
  by (auto simp: read_excel_def)

lemma read_before:
  "read_excel Some disk_before ''/mnt/data'' default_path = Some scenario_catalog"
  by (simp add: read_excel_def disk_before_def abspath_def default_path_def)

lemma startup_scenario:
  "startup ascii_lower parse_none (Some scenario_catalog)
     = ([], Proceed scenario_catalog (Some hdr_Artikel) (Some hdr_Preis))"
  by (simp add: startup_def load_scenario_catalog unpack_def guard_def df_empty_def)
     (simp add: scenario_catalog_def)

text \<open>
  Claim C9. The uploaded sheet is written to the fixed path
  \<open>/mnt/data/Miete_uploaded.xlsx\<close>, and the claim has the next run use it as the
  catalog. The code does the first and not the second: with the catalog of scenario A
  on the disk and the bench catalog uploaded, the run reports success and stores the
  upload, and the run after it starts with the catalog of scenario A again.
\<close>

theorem upload_ignored_after_reload:
  "run ascii_lower parse_none Some ''/mnt/data'' disk_before
      \<lparr>mwst_pct = 19, discount_pct = 0, selected = [], uploaded = Some other_catalog\<rparr>
     = ([StMultiselect [Txt Tisch, Txt Stuhl], StInfo, SidebarSuccess, SidebarSaved],
        Completed, disk_before(upload_path \<mapsto> other_catalog))
   \<and> startup ascii_lower parse_none
        (read_excel Some (disk_before(upload_path \<mapsto> other_catalog)) ''/mnt/data'' default_path)
     = ([], Proceed scenario_catalog (Some hdr_Artikel) (Some hdr_Preis))
   \<and> scenario_catalog \<noteq> other_catalog"
proof -
  have sel: "select_section scenario_catalog (Some hdr_Artikel) (Some hdr_Preis)
      = Inr [StMultiselect [Txt Tisch, Txt Stuhl]]"
    using hdr_distinct
    by (simp add: select_section_def scenario_catalog_def label_count_def column_cells_def)
  have a: "run ascii_lower parse_none Some ''/mnt/data'' disk_before
      \<lparr>mwst_pct = 19, discount_pct = 0, selected = [], uploaded = Some other_catalog\<rparr>
     = ([StMultiselect [Txt Tisch, Txt Stuhl], StInfo, SidebarSuccess, SidebarSaved],
        Completed, disk_before(upload_path \<mapsto> other_catalog))"
    by (simp add: run_def read_before startup_scenario after_startup_def sel
        package_section_def upload_section_def)
  have "read_excel Some (disk_before(upload_path \<mapsto> other_catalog)) ''/mnt/data'' default_path
      = Some scenario_catalog"
    by (simp add: read_excel_def disk_before_def abspath_def default_path_def upload_path_def)
  then have b: "startup ascii_lower parse_none
        (read_excel Some (disk_before(upload_path \<mapsto> other_catalog)) ''/mnt/data'' default_path)
     = ([], Proceed scenario_catalog (Some hdr_Artikel) (Some hdr_Preis))"
    by (simp add: startup_scenario)
  have c: "scenario_catalog \<noteq> other_catalog"
    by (simp add: scenario_catalog_def other_catalog_def)
  from a b c show ?thesis by blast
qed

section \<open>Properties of the package computation in double arithmetic\<close>

subsection \<open>Rounding to the nearest integer, ties to even\<close>

lemma rne_spec:
  "\<bar>q - of_int (rne q)\<bar> < 1 / 2 \<or> (\<bar>q - of_int (rne q)\<bar> = 1 / 2 \<and> even (rne q))"
proof -
  have "of_int \<lfloor>q\<rfloor> \<le> q" "q < of_int \<lfloor>q\<rfloor> + 1" by linarith+
  then show ?thesis by (auto simp: rne_def Let_def)
qed

lemma rne_unique:
  assumes "\<bar>q - of_int n\<bar> < 1 / 2 \<or> (\<bar>q - of_int n\<bar> = 1 / 2 \<and> even n)"
  shows "rne q = n"
proof -
  let ?m = "rne q"
  from rne_spec [of q]
  have m: "\<bar>q - of_int ?m\<bar> < 1 / 2 \<or> (\<bar>q - of_int ?m\<bar> = 1 / 2 \<and> even ?m)" .
  have "\<bar>real_of_int ?m - of_int n\<bar> \<le> 1" using m assms by linarith
  then have d: "\<bar>?m - n\<bar> \<le> 1" by linarith
  show ?thesis
  proof (rule ccontr)
    assume ne: "?m \<noteq> n"
    with d have "\<bar>?m - n\<bar> = 1" by linarith
    then have r: "\<bar>real_of_int ?m - of_int n\<bar> = 1" by linarith
    with m assms have "\<bar>q - of_int ?m\<bar> = 1 / 2" "\<bar>q - of_int n\<bar> = 1 / 2" by linarith+
    with m assms have "even ?m" "even n" by auto
    then have "even (?m - n)" by simp
    with \<open>\<bar>?m - n\<bar> = 1\<close> show False by presburger
  qed
qed

lemma rne_of_int [simp]: "rne (of_int n) = n"
  by (rule rne_unique) simp

lemma rne_minus: "rne (- q) = - rne q"
proof (rule rne_unique)
  have "\<bar>- q - of_int (- rne q)\<bar> = \<bar>q - of_int (rne q)\<bar>" by simp
  with rne_spec [of q]
  show "\<bar>- q - of_int (- rne q)\<bar> < 1 / 2
      \<or> (\<bar>- q - of_int (- rne q)\<bar> = 1 / 2 \<and> even (- rne q))"
    by (metis even_minus)
qed

lemma rne_mono:
  assumes "q \<le> q'"
  shows "rne q \<le> rne q'"
proof (rule ccontr)
  assume "\<not> rne q \<le> rne q'"
  then have lt: "rne q' + 1 \<le> rne q" by simp
  then have ltr: "real_of_int (rne q') + 1 \<le> of_int (rne q)" by linarith
  from rne_spec [of q] rne_spec [of q'] assms ltr
  have "\<bar>q - of_int (rne q)\<bar> = 1 / 2" "\<bar>q' - of_int (rne q')\<bar> = 1 / 2" "q = q'"
    by linarith+
  with lt show False by simp
qed

lemma rne_nonneg: "0 \<le> q \<Longrightarrow> 0 \<le> rne q"
  using rne_mono [of 0 q] rne_of_int [of 0] by simp


subsection \<open>The exponent and the unit in the last place\<close>

lemma powr2_int: "(2 :: real) powr real_of_int k = 2 powi k"
  by (simp add: powr_real_of_int')

lemma pw52: "(2 :: real) powi (e - 52) * 2 ^ 52 = 2 powi e"
proof -
  have "(2 :: real) powi (e - 52 + 52) = 2 powi (e - 52) * 2 powi 52"
    by (rule power_int_add) simp
  then show ?thesis by simp
qed

lemma pw53: "(2 :: real) powi (e - 52) * 2 ^ 53 = 2 powi (e + 1)"
proof -
  have "(2 :: real) powi (e - 52 + 53) = 2 powi (e - 52) * 2 powi 53"
    by (rule power_int_add) simp
  then show ?thesis by (simp add: add.commute)
qed

lemma floor_log2:
  assumes "0 < x"
  shows "2 powi \<lfloor>log 2 x\<rfloor> \<le> x \<and> x < 2 powi (\<lfloor>log 2 x\<rfloor> + 1)"
proof -
  have "\<lfloor>log 2 x\<rfloor> = \<lfloor>log 2 x\<rfloor> \<longleftrightarrow>
      2 powr real_of_int \<lfloor>log 2 x\<rfloor> \<le> x \<and> x < 2 powr real_of_int (\<lfloor>log 2 x\<rfloor> + 1)"
    using assms by (intro floor_log_eq_powr_iff) simp_all
  then show ?thesis by (simp only: powr2_int) simp
qed

lemma floor_log2_eq:
  assumes "0 < x" "2 powi k \<le> x" "x < 2 powi (k + 1)"
  shows "\<lfloor>log 2 x\<rfloor> = k"
proof -
  have "\<lfloor>log 2 x\<rfloor> = k \<longleftrightarrow> 2 powr real_of_int k \<le> x \<and> x < 2 powr real_of_int (k + 1)"
    using assms(1) by (intro floor_log_eq_powr_iff) simp_all
  with assms show ?thesis by (simp only: powr2_int)
qed

lemma expo_abs [simp]: "expo (- x) = expo x"
  by (simp add: expo_def)

lemma expo_ge: "- 1022 \<le> expo x"
  by (simp add: expo_def)

lemma expo_upper:
  assumes "0 < x"
  shows "x < 2 powi (expo x + 1)"
proof -
  from floor_log2 [OF assms] have "x < 2 powi (\<lfloor>log 2 x\<rfloor> + 1)" by simp
  also have "\<dots> \<le> 2 powi (expo x + 1)"
    using assms by (intro power_int_increasing) (simp_all add: expo_def)
  finally show ?thesis .
qed

lemma expo_normal:
  assumes "0 < x" "- 1022 \<le> e" "2 powi e \<le> x" "x < 2 powi (e + 1)"
  shows "expo x = e"
  using floor_log2_eq [OF assms(1,3,4)] assms(1,2) by (simp add: expo_def)

lemma expo_subnormal:
  assumes "0 < x" "x < 2 powi (- 1022)"
  shows "expo x = - 1022"
proof -
  have "\<lfloor>log 2 x\<rfloor> < - 1022"
  proof (rule ccontr)
    assume "\<not> \<lfloor>log 2 x\<rfloor> < - 1022"
    then have "- 1022 \<le> \<lfloor>log 2 x\<rfloor>" by linarith
    then have "(2 :: real) powi (- 1022) \<le> 2 powi \<lfloor>log 2 x\<rfloor>"
      by (rule power_int_increasing) simp
    with floor_log2 [OF assms(1)] assms(2) show False by linarith
  qed
  with assms(1) show ?thesis by (simp add: expo_def)
qed

lemma expo_lower:
  assumes "0 < x" "2 powi (- 1022) \<le> x"
  shows "2 powi (expo x) \<le> x"
proof -
  have "- 1022 \<le> \<lfloor>log 2 x\<rfloor>"
  proof (rule ccontr)
    assume "\<not> - 1022 \<le> \<lfloor>log 2 x\<rfloor>"
    then have "\<lfloor>log 2 x\<rfloor> + 1 \<le> - 1022" by linarith
    then have "(2 :: real) powi (\<lfloor>log 2 x\<rfloor> + 1) \<le> 2 powi (- 1022)"
      by (rule power_int_increasing) simp
    with floor_log2 [OF assms(1)] assms(2) show False by linarith
  qed
  then have "expo x = \<lfloor>log 2 x\<rfloor>"
    by (simp only: expo_def abs_of_pos [OF assms(1)] max_absorb1)
  with floor_log2 [OF assms(1)] show ?thesis by simp
qed

lemma expo_lower':
  assumes "0 < x" "- 1022 < expo x"
  shows "2 powi (expo x) \<le> x"
proof (rule expo_lower [OF assms(1)])
  show "2 powi (- 1022) \<le> x"
  proof (rule ccontr)
    assume "\<not> 2 powi (- 1022) \<le> x"
    with assms(1) have "expo x = - 1022" by (intro expo_subnormal) simp_all
    with assms(2) show False by simp
  qed
qed

lemma expo_mono:
  assumes "0 < x" "x \<le> y"
  shows "expo x \<le> expo y"
proof -
  from assms have "log 2 x \<le> log 2 y" by simp
  then have "\<lfloor>log 2 x\<rfloor> \<le> \<lfloor>log 2 y\<rfloor>" by (rule floor_mono)
  with assms show ?thesis by (simp add: expo_def)
qed

lemma ulp_pos [simp]: "0 < ulp x"
  by (simp add: ulp_def)

lemma ulp_nonneg [simp]: "0 \<le> ulp x"
  using ulp_pos [of x] by linarith

lemma ulp_52: "ulp x * 2 ^ 52 = 2 powi (expo x)"
  unfolding ulp_def by (rule pw52)

lemma ulp_53: "ulp x * 2 ^ 53 = 2 powi (expo x + 1)"
  unfolding ulp_def by (rule pw53)

lemma ulp_minus [simp]: "ulp (- x) = ulp x"
  by (simp add: ulp_def)

subsection \<open>Rounding to a double: sign, order, fixed points\<close>

lemma round64_0 [simp]: "round64 0 = 0"
  by (simp add: round64_def)

lemma round64_minus: "round64 (- x) = - round64 x"
  by (simp add: round64_def rne_minus)

text \<open>The quotient by the unit in the last place, for a positive number.\<close>

lemma quotient_bounds:
  assumes "0 < x"
  shows "0 < x / ulp x" "x / ulp x < 2 ^ 53"
    "- 1022 < expo x \<or> 2 powi (- 1022) \<le> x \<Longrightarrow> 2 ^ 52 \<le> x / ulp x"
proof -
  show "0 < x / ulp x" using assms by simp
  have "x < 2 ^ 53 * ulp x"
    using expo_upper [OF assms] by (simp only: ulp_53 [symmetric] mult.commute)
  then show "x / ulp x < 2 ^ 53" by (simp only: pos_divide_less_eq [OF ulp_pos])
  assume "- 1022 < expo x \<or> 2 powi (- 1022) \<le> x"
  then have "2 powi (expo x) \<le> x"
    using expo_lower [OF assms] expo_lower' [OF assms] by blast
  then have "2 ^ 52 * ulp x \<le> x" by (simp only: ulp_52 [symmetric] mult.commute)
  then show "2 ^ 52 \<le> x / ulp x" by (simp only: pos_le_divide_eq [OF ulp_pos])
qed

lemma rne_quotient_bounds:
  assumes "0 < x"
  shows "0 \<le> rne (x / ulp x)" "rne (x / ulp x) \<le> 2 ^ 53"
    "- 1022 < expo x \<or> 2 powi (- 1022) \<le> x \<Longrightarrow> 2 ^ 52 \<le> rne (x / ulp x)"
proof -
  from quotient_bounds(1) [OF assms] show "0 \<le> rne (x / ulp x)"
    by (intro rne_nonneg) simp
  have "rne (x / ulp x) \<le> rne (of_int (2 ^ 53))"
    using quotient_bounds(2) [OF assms] by (intro rne_mono) simp
  then show "rne (x / ulp x) \<le> 2 ^ 53" by (simp only: rne_of_int)
  assume "- 1022 < expo x \<or> 2 powi (- 1022) \<le> x"
  then have "rne (of_int (2 ^ 52)) \<le> rne (x / ulp x)"
    using quotient_bounds(3) [OF assms] by (intro rne_mono) simp
  then show "2 ^ 52 \<le> rne (x / ulp x)" by (simp only: rne_of_int)
qed

lemma round64_pos_eq: "0 < x \<Longrightarrow> round64 x = of_int (rne (x / ulp x)) * ulp x"
  by (simp add: round64_def)

lemma round64_nonneg: "0 \<le> x \<Longrightarrow> 0 \<le> round64 x"
proof (cases "x = 0")
  case False
  assume "0 \<le> x"
  with False have "0 < x" by simp
  from rne_quotient_bounds(1) [OF this] have "0 \<le> real_of_int (rne (x / ulp x))" by simp
  then have "0 \<le> real_of_int (rne (x / ulp x)) * ulp x"
    by (intro mult_nonneg_nonneg) simp_all
  then show ?thesis by (simp only: round64_pos_eq [OF \<open>0 < x\<close>])
qed simp

lemma round64_upper:
  assumes "0 < x"
  shows "round64 x \<le> 2 powi (expo x + 1)"
proof -
  from rne_quotient_bounds(2) [OF assms]
  have "real_of_int (rne (x / ulp x)) \<le> 2 ^ 53"
    by (metis of_int_le_iff of_int_numeral of_int_power)
  then have "of_int (rne (x / ulp x)) * ulp x \<le> 2 ^ 53 * ulp x"
    by (rule mult_right_mono) (rule ulp_nonneg)
  then show ?thesis
    by (simp only: round64_pos_eq [OF assms] ulp_53 [symmetric] mult.commute)
qed

lemma round64_lower:
  assumes "0 < x" "- 1022 < expo x \<or> 2 powi (- 1022) \<le> x"
  shows "2 powi (expo x) \<le> round64 x"
proof -
  from rne_quotient_bounds(3) [OF assms]
  have "2 ^ 52 \<le> real_of_int (rne (x / ulp x))"
    by (metis of_int_le_iff of_int_numeral of_int_power)
  then have "2 ^ 52 * ulp x \<le> of_int (rne (x / ulp x)) * ulp x"
    by (rule mult_right_mono) (rule ulp_nonneg)
  then show ?thesis
    by (simp only: round64_pos_eq [OF assms(1)] ulp_52 [symmetric] mult.commute)
qed

lemma round64_mono_pos:
  assumes "0 < x" "x \<le> y"
  shows "round64 x \<le> round64 y"
proof -
  from assms have y: "0 < y" by simp
  from expo_mono [OF assms] have "expo x = expo y \<or> expo x < expo y" by linarith
  then show ?thesis
  proof
    assume e: "expo x = expo y"
    then have u: "ulp x = ulp y" by (simp add: ulp_def)
    have "x / ulp y \<le> y / ulp y" using assms by (simp add: divide_right_mono)
    then have "rne (x / ulp y) \<le> rne (y / ulp y)" by (rule rne_mono)
    then have "real_of_int (rne (x / ulp y)) * ulp y \<le> of_int (rne (y / ulp y)) * ulp y"
      by (intro mult_right_mono ulp_nonneg) simp
    then show ?thesis by (simp add: round64_pos_eq [OF assms(1)] round64_pos_eq [OF y] u)
  next
    assume e: "expo x < expo y"
    with expo_ge [of x] have n: "- 1022 < expo y" by linarith
    have "round64 x \<le> 2 powi (expo x + 1)" by (rule round64_upper [OF assms(1)])
    also have "\<dots> \<le> 2 powi (expo y)"
      using e by (intro power_int_increasing) simp_all
    also have "\<dots> \<le> round64 y" using n by (intro round64_lower [OF y]) simp
    finally show ?thesis .
  qed
qed

lemma round64_mono_nonneg:
  assumes "0 \<le> x" "x \<le> y"
  shows "round64 x \<le> round64 y"
proof (cases "x = 0")
  case True
  with assms round64_nonneg [of y] show ?thesis by simp
next
  case False
  with assms have "0 < x" by simp
  then show ?thesis using assms(2) by (rule round64_mono_pos)
qed

lemma round64_fix:
  assumes "0 < z" "z = of_int m * ulp z"
  shows "round64 z = z"
proof -
  have "z / ulp z = of_int m"
    using assms(2) ulp_pos [of z] by (metis less_irrefl nonzero_eq_divide_eq)
  then have "rne (z / ulp z) = m" by (simp only: rne_of_int)
  with assms show ?thesis by (simp only: round64_pos_eq [OF assms(1)])
qed

lemma ulp_eq: "expo z = expo x \<Longrightarrow> ulp z = ulp x"
  by (simp add: ulp_def)

lemma round64_idem_pos:
  assumes "0 < x"
  shows "round64 (round64 x) = round64 x"
proof -
  define n where "n = rne (x / ulp x)"
  define z where "z = round64 x"
  have z: "z = of_int n * ulp x" by (simp only: z_def n_def round64_pos_eq [OF assms])
  have n0: "0 \<le> n" and n53: "n \<le> 2 ^ 53"
    using rne_quotient_bounds(1,2) [OF assms] by (simp_all only: n_def)
  have rn53: "real_of_int n \<le> 2 ^ 53"
    using n53 by (metis of_int_le_iff of_int_numeral of_int_power)
  consider "n = 0" | "n = 2 ^ 53" | "0 < n" "n < 2 ^ 53" using n0 n53 by linarith
  then have "round64 z = z"
  proof cases
    case 1
    then show ?thesis by (simp add: z)
  next
    case 2
    then have "real_of_int n = 2 ^ 53" by simp
    then have zz: "z = 2 powi (expo x + 1)" by (simp only: z ulp_53 [symmetric] mult.commute)
    then have zpos: "0 < z" by simp
    have "expo z = expo x + 1"
    proof (rule expo_normal [OF zpos])
      show "- 1022 \<le> expo x + 1" using expo_ge [of x] by linarith
      show "2 powi (expo x + 1) \<le> z" by (simp only: zz)
      have "(2 :: real) powi (expo x + 1) < 2 powi (expo x + 1 + 1)"
        by (rule power_int_strict_increasing) simp_all
      then show "z < 2 powi (expo x + 1 + 1)" by (simp only: zz)
    qed
    then have "ulp z * 2 ^ 52 = 2 powi (expo x + 1)" by (simp only: ulp_52)
    then have "z = of_int (2 ^ 52) * ulp z" by (simp add: zz mult.commute)
    with zpos show ?thesis by (rule round64_fix)
  next
    case 3
    then have rn: "0 < real_of_int n" "real_of_int n < 2 ^ 53"
      by simp (metis "3"(2) of_int_less_iff of_int_numeral of_int_power)
    have zpos: "0 < z" using rn(1) by (simp add: z)
    have up: "z < 2 powi (expo x + 1)"
    proof -
      have "real_of_int n * ulp x < 2 ^ 53 * ulp x"
        using rn(2) by (rule mult_strict_right_mono) (rule ulp_pos)
      then show ?thesis by (simp only: z ulp_53 [symmetric] mult.commute)
    qed
    have low: "2 powi (expo x) \<le> z" if "- 1022 < expo x \<or> 2 powi (- 1022) \<le> x"
    proof -
      from rne_quotient_bounds(3) [OF assms that] have "2 ^ 52 \<le> real_of_int n"
        unfolding n_def by (metis of_int_le_iff of_int_numeral of_int_power)
      then have "2 ^ 52 * ulp x \<le> real_of_int n * ulp x"
        by (rule mult_right_mono) (rule ulp_nonneg)
      then show ?thesis by (simp only: z ulp_52 [symmetric] mult.commute)
    qed
    have "expo z = expo x"
    proof (cases "2 powi (- 1022) \<le> z")
      case True
      show ?thesis
      proof (rule expo_normal [OF zpos expo_ge _ up])
        show "2 powi (expo x) \<le> z"
        proof (cases "- 1022 < expo x")
          case True
          then show ?thesis by (intro low) simp
        next
          case False
          with expo_ge [of x] have "expo x = - 1022" by linarith
          with \<open>2 powi (- 1022) \<le> z\<close> show ?thesis by simp
        qed
      qed
    next
      case False
      then have zs: "z < 2 powi (- 1022)" by simp
      have "expo x = - 1022"
      proof (rule ccontr)
        assume "expo x \<noteq> - 1022"
        with expo_ge [of x] have n: "- 1022 < expo x" by linarith
        then have "2 powi (expo x) \<le> z" by (intro low) simp
        moreover have "(2 :: real) powi (- 1022) \<le> 2 powi (expo x)"
          using n by (intro power_int_increasing) simp_all
        ultimately show False using zs by linarith
      qed
      with expo_subnormal [OF zpos zs] show ?thesis by simp
    qed
    then have "ulp z = ulp x" by (rule ulp_eq)
    with z have "z = of_int n * ulp z" by simp
    with zpos show ?thesis by (rule round64_fix)
  qed
  then show ?thesis by (simp only: z_def)
qed

lemma round64_idem [simp]: "round64 (round64 x) = round64 x"
proof -
  consider "x = 0" | "0 < x" | "x < 0" by linarith
  then show ?thesis
  proof cases
    case 1
    then show ?thesis by simp
  next
    case 2
    then show ?thesis by (rule round64_idem_pos)
  next
    case 3
    then have "0 < - x" by simp
    from round64_idem_pos [OF this] show ?thesis by (simp add: round64_minus)
  qed
qed

text \<open>Evaluating the rounding of a positive number whose binade is known.\<close>

lemma round64_at:
  assumes "u = 2 powi k" "- 1074 \<le> k" "2 ^ 52 * u \<le> x" "x < 2 ^ 53 * u"
    and "rne (x / u) = n"
  shows "round64 x = of_int n * u"
proof -
  have upos: "0 < u" by (simp add: assms(1))
  then have xpos: "0 < x" using assms(3) by (smt (verit) mult_pos_pos zero_less_power)
  have a: "(2 :: real) powi (k + 52) = 2 ^ 52 * u"
    using pw52 [of "k + 52"] by (simp add: assms(1) mult.commute)
  have b: "(2 :: real) powi (k + 52 + 1) = 2 ^ 53 * u"
    using pw53 [of "k + 52"] by (simp add: assms(1) mult.commute)
  have "expo x = k + 52"
  proof (rule expo_normal [OF xpos])
    show "- 1022 \<le> k + 52" using assms(2) by simp
    show "2 powi (k + 52) \<le> x" using assms(3) by (simp only: a)
    show "x < 2 powi (k + 52 + 1)" using assms(4) by (simp only: b)
  qed
  then have "ulp x = u" by (simp add: ulp_def assms(1))
  with assms(5) show ?thesis by (simp add: round64_pos_eq [OF xpos])
qed

lemma rne_at:
  "real_of_int n - 1 / 2 < q \<Longrightarrow> q < real_of_int n + 1 / 2 \<Longrightarrow> rne q = n"
proof -
  assume "real_of_int n - 1 / 2 < q" "q < real_of_int n + 1 / 2"
  then have "\<bar>q - of_int n\<bar> < 1 / 2" by linarith
  then show ?thesis by (intro rne_unique) blast
qed

lemma round64_of_int:
  assumes "\<bar>m\<bar> < 2 ^ 53"
  shows "round64 (of_int m) = of_int m"
proof -
  have pos: "round64 (of_int j) = of_int j" if "0 < j" "j < 2 ^ 53" for j :: int
  proof -
    have jpos: "0 < real_of_int j" using that by simp
    have "real_of_int j < 2 ^ 53"
      using that(2) by (metis of_int_less_iff of_int_numeral of_int_power)
    also have "\<dots> = 2 powi 53" by simp
    finally have "real_of_int j < 2 powi 53" .
    have e53: "expo (of_int j) < 53"
    proof (rule ccontr)
      assume "\<not> expo (real_of_int j) < 53"
      then have "53 \<le> expo (real_of_int j)" by simp
      then have "(2 :: real) powi 53 \<le> 2 powi (expo (real_of_int j))"
        by (rule power_int_increasing) simp
      moreover have "- 1022 < expo (real_of_int j)"
        using \<open>53 \<le> expo (real_of_int j)\<close> by linarith
      then have "2 powi (expo (real_of_int j)) \<le> real_of_int j"
        by (rule expo_lower' [OF jpos])
      ultimately show False using \<open>real_of_int j < 2 powi 53\<close> by linarith
    qed
    define d where "d = nat (52 - expo (real_of_int j))"
    have d: "int d = 52 - expo (real_of_int j)" using e53 by (simp add: d_def)
    have "ulp (real_of_int j) = 2 powi (- int d)" by (simp add: ulp_def d)
    then have u: "ulp (real_of_int j) = 1 / 2 ^ d"
      by (simp add: power_int_minus_divide)
    have "real_of_int j = of_int (j * 2 ^ d) * ulp (real_of_int j)" by (simp add: u)
    with jpos show ?thesis by (rule round64_fix)
  qed
  consider "m = 0" | "0 < m" | "m < 0" by linarith
  then show ?thesis
  proof cases
    case 1
    then show ?thesis by simp
  next
    case 2
    with assms show ?thesis by (intro pos) simp_all
  next
    case 3
    with assms have "round64 (of_int (- m)) = of_int (- m)" by (intro pos) simp_all
    then show ?thesis by (simp add: round64_minus)
  qed
qed

subsection \<open>The operations\<close>

lemma to_double_cases:
  "to_double x = PosInf \<and> 2 ^ 1024 \<le> round64 x
   \<or> to_double x = NegInf \<and> round64 x \<le> - (2 ^ 1024)
   \<or> to_double x = Finite (round64 x) \<and> \<bar>round64 x\<bar> < 2 ^ 1024"
  unfolding to_double_def Let_def by auto

lemma to_double_neq_nan [simp]: "to_double x \<noteq> NotANumber"
  using to_double_cases [of x] by auto

lemma is_double_to_double [simp]: "is_double (to_double x)"
  using to_double_cases [of x] by (auto simp: is_double_def)

lemma to_double_fix: "round64 z = z \<Longrightarrow> \<bar>z\<bar> < 2 ^ 1024 \<Longrightarrow> to_double z = Finite z"
  using to_double_cases [of z] by auto

lemma to_double_is_double: "is_double (Finite z) \<Longrightarrow> to_double z = Finite z"
  by (simp add: is_double_def to_double_fix)

lemma to_double_0 [simp]: "to_double 0 = Finite 0"
  by (rule to_double_fix) simp_all

lemma is_double_0 [simp]: "is_double (Finite 0)"
  by (simp add: is_double_def)

lemma is_double_nonfinite [simp]:
  "is_double PosInf" "is_double NegInf" "is_double NotANumber"
  by (simp_all add: is_double_def)

lemma is_double_fadd [simp]: "is_double (fadd a b)"
  by (cases a; cases b) simp_all

lemma is_double_fmul [simp]: "is_double (fmul a b)"
  by (cases a; cases b) simp_all

lemma fadd_zero_right: "is_double t \<Longrightarrow> fadd t (Finite 0) = t"
  by (cases t) (simp_all add: to_double_is_double)

lemma fadd_zero_left: "is_double t \<Longrightarrow> fadd (Finite 0) t = t"
  by (cases t) (simp_all add: to_double_is_double)

lemma is_double_foldl: "is_double t \<Longrightarrow> is_double (foldl fadd t xs)"
  by (induction xs arbitrary: t) simp_all

lemma to_double_nonneg:
  assumes "0 \<le> x"
  shows "to_double x = PosInf \<or> (to_double x = Finite (round64 x) \<and> 0 \<le> round64 x
           \<and> round64 x < 2 ^ 1024)"
  using to_double_cases [of x] round64_nonneg [OF assms] by auto

lemma fle0_to_double: "0 \<le> x \<Longrightarrow> fle (Finite 0) (to_double x)"
  using to_double_nonneg [of x] by auto

lemma fle0_cases: "fle (Finite 0) t \<longleftrightarrow> t = PosInf \<or> (\<exists>r. t = Finite r \<and> 0 \<le> r)"
  by (cases t) simp_all

lemma fle0_fadd: "fle (Finite 0) a \<Longrightarrow> fle (Finite 0) b \<Longrightarrow> fle (Finite 0) (fadd a b)"
  by (cases a; cases b) (simp_all add: fle0_to_double)

lemma fle0_foldl:
  "fle (Finite 0) t \<Longrightarrow> \<forall>x\<in>set xs. fle (Finite 0) x \<Longrightarrow> fle (Finite 0) (foldl fadd t xs)"
  by (induction xs arbitrary: t) (simp_all add: fle0_fadd)

subsection \<open>The sum of pandas over numbers that are not negative\<close>

lemma unrolled8_nonneg:
  assumes "length r = 8" "\<forall>x\<in>set r. fle (Finite 0) x" "\<forall>x\<in>set a. fle (Finite 0) x"
    and "unrolled8 r a = (r', rest)"
  shows "length r' = 8 \<and> (\<forall>x\<in>set r'. fle (Finite 0) x) \<and> (\<forall>x\<in>set rest. fle (Finite 0) x)"
  using assms
proof (induction r a rule: unrolled8.induct)
  case (1 r a)
  show ?case
  proof (cases "length a < 8")
    case True
    with "1.prems"(4) have "r' = r" "rest = a" by (subst (asm) unrolled8.simps; simp)+
    with "1.prems" show ?thesis by simp
  next
    case False
    let ?r = "map2 fadd r (take 8 a)"
    have len: "length ?r = 8" using False "1.prems"(1) by simp
    have nn: "\<forall>x\<in>set ?r. fle (Finite 0) x"
    proof
      fix x assume "x \<in> set ?r"
      then obtain p q where "x = fadd p q" "(p, q) \<in> set (zip r (take 8 a))" by auto
      then have "p \<in> set r" "q \<in> set a"
        by (auto dest: set_zip_leftD set_zip_rightD in_set_takeD)
      with "1.prems"(2,3) \<open>x = fadd p q\<close> show "fle (Finite 0) x" by (simp add: fle0_fadd)
    qed
    have rest: "\<forall>x\<in>set (drop 8 a). fle (Finite 0) x"
      using "1.prems"(3) by (auto dest: in_set_dropD)
    have "unrolled8 ?r (drop 8 a) = (r', rest)"
      using "1.prems"(4) False by (subst (asm) unrolled8.simps) simp
    from "1.IH" [OF False len nn rest this] show ?thesis .
  qed
qed

lemma combine8_nonneg:
  assumes "length r = 8" "\<forall>x\<in>set r. fle (Finite 0) x"
  shows "fle (Finite 0) (combine8 r)"
proof -
  have "\<forall>i<8. fle (Finite 0) (r ! i)" using assms by simp
  then show ?thesis by (simp add: combine8_def fle0_fadd)
qed

lemma pairwise_sum_nonneg:
  "\<forall>x\<in>set a. fle (Finite 0) x \<Longrightarrow> fle (Finite 0) (pairwise_sum a)"
proof (induction a rule: pairwise_sum.induct)
  case (1 a)
  consider "length a < 8" | "\<not> length a < 8" "length a \<le> 128"
    | "\<not> length a < 8" "\<not> length a \<le> 128" by blast
  then show ?case
  proof cases
    case 1
    then have "pairwise_sum a = foldl fadd (Finite 0) a" by (subst pairwise_sum.simps) simp
    with "1.prems" show ?thesis by (simp add: fle0_foldl)
  next
    case 2
    obtain r rest where u: "unrolled8 (take 8 a) (drop 8 a) = (r, rest)" by fastforce
    have "length (take 8 a) = 8" using 2 by simp
    moreover have "\<forall>x\<in>set (take 8 a). fle (Finite 0) x" "\<forall>x\<in>set (drop 8 a). fle (Finite 0) x"
      using "1.prems" by (auto dest: in_set_takeD in_set_dropD)
    ultimately have "length r = 8 \<and> (\<forall>x\<in>set r. fle (Finite 0) x)
        \<and> (\<forall>x\<in>set rest. fle (Finite 0) x)"
      using u by (rule unrolled8_nonneg)
    then have "fle (Finite 0) (foldl fadd (combine8 r) rest)"
      by (intro fle0_foldl combine8_nonneg) simp_all
    moreover have "pairwise_sum a = foldl fadd (combine8 r) rest"
      using 2 u by (subst pairwise_sum.simps) simp
    ultimately show ?thesis by simp
  next
    case 3
    define n2 where "n2 = length a div 2 - (length a div 2) mod 8"
    have "fle (Finite 0) (pairwise_sum (take n2 a))"
      using 3 "1.prems" by (intro "1.IH"(1)) (auto simp: n2_def dest: in_set_takeD)
    moreover have "fle (Finite 0) (pairwise_sum (drop n2 a))"
      using 3 "1.prems" by (intro "1.IH"(2)) (auto simp: n2_def dest: in_set_dropD)
    moreover have "pairwise_sum a = fadd (pairwise_sum (take n2 a)) (pairwise_sum (drop n2 a))"
      using 3 by (subst pairwise_sum.simps) (simp add: n2_def Let_def)
    ultimately show ?thesis by (simp add: fle0_fadd)
  qed
qed

lemma series_sum_nonneg:
  assumes "\<forall>x\<in>set xs. fle (Finite 0) x"
  shows "fle (Finite 0) (series_sum xs)"
proof -
  have "map (\<lambda>x. if x = NotANumber then Finite 0 else x) xs = xs"
    using assms by (induction xs) auto
  then show ?thesis
    using assms by (simp add: series_sum_def np_sum_def fle0_fadd pairwise_sum_nonneg)
qed

lemma series_sum_is_double [simp]: "is_double (series_sum xs)"
  by (simp add: series_sum_def np_sum_def)

lemma round64_1 [simp]: "round64 1 = 1"
  using round64_of_int [of 1] by simp

lemma to_double_between:
  assumes "is_double (Finite b)" "0 \<le> x" "x \<le> b"
  shows "\<exists>y. to_double x = Finite y \<and> 0 \<le> y \<and> y \<le> b \<and> is_double (Finite y)"
proof -
  from assms(1) have b: "round64 b = b" "\<bar>b\<bar> < 2 ^ 1024" by (simp_all add: is_double_def)
  from round64_mono_nonneg [OF assms(2,3)] b(1) have le: "round64 x \<le> b" by simp
  from round64_nonneg [OF assms(2)] have ge: "0 \<le> round64 x" .
  from le ge b(2) have "\<bar>round64 x\<bar> < 2 ^ 1024" by linarith
  then have "to_double x = Finite (round64 x)" using to_double_cases [of x] by auto
  moreover have "is_double (Finite (round64 x))"
    using \<open>\<bar>round64 x\<bar> < 2 ^ 1024\<close> by (simp add: is_double_def)
  ultimately show ?thesis using le ge by blast
qed

lemma to_double_above:
  assumes "is_double (Finite a)" "0 \<le> a" "a \<le> x"
  shows "fle (Finite a) (to_double x)"
proof -
  from assms(1) have a: "round64 a = a" by (simp add: is_double_def)
  from round64_mono_nonneg [OF assms(2,3)] a have "a \<le> round64 x" by simp
  with assms(2) to_double_cases [of x] show ?thesis by auto
qed

lemma is_double_1 [simp]: "is_double (Finite 1)"
  by (simp add: is_double_def)

lemma to_double_overflow:
  assumes "2 ^ 1024 \<le> x"
  shows "to_double x = PosInf"
proof -
  have xpos: "0 < x" using assms by (smt (verit) zero_less_power)
  have "(2 :: real) powi 1024 \<le> x" using assms by simp
  have e: "expo ((2 :: real) ^ 1024) = 1024"
    by (rule expo_normal) simp_all
  have "expo ((2 :: real) ^ 1024) \<le> expo x"
    using assms by (intro expo_mono) simp_all
  with e have ex: "1024 \<le> expo x" by simp
  then have "(2 :: real) powi 1024 \<le> 2 powi (expo x)"
    by (rule power_int_increasing) simp
  also have "\<dots> \<le> round64 x" using ex by (intro round64_lower [OF xpos]) simp
  finally have "2 ^ 1024 \<le> round64 x" by simp
  then show ?thesis by (simp add: to_double_def)
qed

lemma to_double_of_int: "\<bar>m\<bar> < 2 ^ 53 \<Longrightarrow> to_double (of_int m) = Finite (of_int m)"
proof (rule to_double_fix)
  assume m: "\<bar>m\<bar> < 2 ^ 53"
  then show "round64 (of_int m) = of_int m" by (rule round64_of_int)
  from m have "\<bar>real_of_int m\<bar> < 2 ^ 53"
    by (metis of_int_abs of_int_less_iff of_int_numeral of_int_power)
  also have "(2 :: real) ^ 53 < 2 ^ 1024" by simp
  finally show "\<bar>real_of_int m\<bar> < 2 ^ 1024" .
qed

lemma int_float_small: "\<bar>k\<bar> < 2 ^ 53 \<Longrightarrow> int_float k = Inr (Finite (of_int k))"
  by (simp add: int_float_def to_double_of_int)

lemma int_float_pos:
  assumes "0 < k" "int_float k = Inr q"
  shows "\<exists>r. q = Finite r \<and> 1 \<le> r"
proof -
  from assms(2) obtain r where r: "to_double (of_int k) = Finite r" "q = Finite r"
    by (auto simp: int_float_def split: double.splits)
  with to_double_cases [of "of_int k"] have "r = round64 (of_int k)" by auto
  moreover have "round64 1 \<le> round64 (real_of_int k)"
    using assms(1) by (intro round64_mono_nonneg) simp_all
  ultimately show ?thesis using r(2) by simp
qed

subsection \<open>The loop and the summary\<close>

lemma collect_lines_d_Inr:
  "collect_lines_d sel t acc = Inr (t', ls) \<Longrightarrow>
     \<exists>new. ls = acc @ new \<and> t' = foldl fadd t (map ZeileNetto_d new)
        \<and> map (\<lambda>l. (Artikel_d l, Menge_d l, Einzelpreis_d l)) new = sel
        \<and> (\<forall>l\<in>set new. \<exists>q. int_float (Menge_d l) = Inr q
              \<and> ZeileNetto_d l = fmul q (Einzelpreis_d l))"
proof (induction sel arbitrary: t acc)
  case Nil
  then show ?case by simp
next
  case (Cons a sel)
  obtain art qty price where a: "a = (art, qty, price)" by (cases a)
  from Cons.prems a obtain q where q: "int_float qty = Inr q"
    and rec: "collect_lines_d sel (fadd t (fmul q price))
            (acc @ [\<lparr>Artikel_d = art, Menge_d = qty, Einzelpreis_d = price,
                      ZeileNetto_d = fmul q price\<rparr>]) = Inr (t', ls)"
    by (auto split: sum.splits)
  let ?l = "\<lparr>Artikel_d = art, Menge_d = qty, Einzelpreis_d = price,
              ZeileNetto_d = fmul q price\<rparr>"
  from Cons.IH [OF rec] obtain new where
    n: "ls = (acc @ [?l]) @ new"
       "t' = foldl fadd (fadd t (fmul q price)) (map ZeileNetto_d new)"
       "map (\<lambda>l. (Artikel_d l, Menge_d l, Einzelpreis_d l)) new = sel"
       "\<forall>l\<in>set new. \<exists>q. int_float (Menge_d l) = Inr q
              \<and> ZeileNetto_d l = fmul q (Einzelpreis_d l)"
    by blast
  show ?case
    by (rule exI [of _ "?l # new"]) (use n a q in simp)
qed

lemma summarise_d_Some:
  "summarise_d package_lines discount v = Some r \<Longrightarrow>
     package_df_d package_lines \<noteq> []
   \<and> compute_summary_d (package_df_d package_lines) discount v = r"
  by (simp add: summarise_d_def Let_def split: if_splits)

lemma compute_summary_d_Inr:
  assumes "compute_summary_d pdf discount v = Inr s"
  shows "net_sum_d s = series_sum (map ZeileNetto_d pdf)"
    and "discount_amount_d s = fmul (net_sum_d s) (div100 discount)"
    and "net_after_discount_d s = fsub (net_sum_d s) (discount_amount_d s)"
    and "v = 0 \<Longrightarrow> vat_amount_d s = Finite 0"
    and "v \<noteq> 0 \<Longrightarrow> \<exists>vv. int_float v = Inr vv
           \<and> vat_amount_d s = fmul (net_after_discount_d s) (div100 vv)"
    and "gross_total_d s = fadd (net_after_discount_d s) (vat_amount_d s)"
  using assms
  by (auto simp: compute_summary_d_def Let_def split: if_splits sum.splits)

subsection \<open>Gross total, net after discount and 0\<close>

text \<open>
  Claim C5, amended. When every quantity is at least 0, every unit price is at least 0,
  the discount percentage lies between 0 and 100, the VAT percentage is 0, 7 or 19, and
  the net subtotal is a finite double (no product and no sum has overflowed), the summary
  has gross total \<open>\<ge>\<close> net after discount \<open>\<ge>\<close> 0, in double arithmetic.
\<close>

theorem gross_ge_net_after_discount_finite:
  assumes lines: "collect_lines_d sel (Finite 0) [] = Inr (total_net, package_lines)"
    and qty: "\<forall>(art, qty, price)\<in>set sel. 0 \<le> qty"
    and price: "\<forall>(art, qty, price)\<in>set sel. fle (Finite 0) price"
    and disc: "discount = Finite d" "0 \<le> d" "d \<le> 100"
    and vat: "v \<in> {0, 7, 19}"
    and s: "summarise_d package_lines discount v = Some (Inr s)"
    and fin: "net_sum_d s = Finite n"
  shows "fle (Finite 0) (net_after_discount_d s)
       \<and> fle (net_after_discount_d s) (gross_total_d s)"
proof -
  from summarise_d_Some [OF s]
  have s': "compute_summary_d (package_df_d package_lines) discount v = Inr s" by simp
  note cs = compute_summary_d_Inr [OF s']
  from collect_lines_d_Inr [OF lines] have
    sel: "map (\<lambda>l. (Artikel_d l, Menge_d l, Einzelpreis_d l)) package_lines = sel"
    and zn: "\<forall>l\<in>set package_lines. \<exists>q. int_float (Menge_d l) = Inr q
              \<and> ZeileNetto_d l = fmul q (Einzelpreis_d l)"
    by auto
  have amounts: "\<forall>x\<in>set (map ZeileNetto_d (package_df_d package_lines)). fle (Finite 0) x"
  proof
    fix x assume "x \<in> set (map ZeileNetto_d (package_df_d package_lines))"
    then obtain l where l: "l \<in> set package_lines" "0 < Menge_d l" "x = ZeileNetto_d l"
      by (auto simp: package_df_d_def)
    from l(1) have "(Artikel_d l, Menge_d l, Einzelpreis_d l) \<in> set sel"
      using sel by force
    with price have p: "fle (Finite 0) (Einzelpreis_d l)" by auto
    from zn l(1) obtain q where q: "int_float (Menge_d l) = Inr q"
      "ZeileNetto_d l = fmul q (Einzelpreis_d l)" by blast
    from int_float_pos [OF l(2) q(1)] obtain r where r: "q = Finite r" "1 \<le> r" by blast
    from p r show "fle (Finite 0) x"
      unfolding l(3) q(2) by (cases "Einzelpreis_d l") (simp_all add: fle0_to_double)
  qed
  from series_sum_nonneg [OF amounts] fin cs(1) have n0: "0 \<le> n" by simp
  have nd: "is_double (Finite n)"
    using series_sum_is_double [of "map ZeileNetto_d (package_df_d package_lines)"]
    by (simp only: cs(1) [symmetric] fin)
  have "0 \<le> d / 100" "d / 100 \<le> 1" using disc by simp_all
  from to_double_between [OF is_double_1 this] obtain rr where
    rr: "div100 discount = Finite rr" "0 \<le> rr" "rr \<le> 1"
    by (auto simp: disc(1))
  have "0 \<le> n * rr" "n * rr \<le> n"
    using n0 rr(2,3) by (simp_all add: mult_left_le)
  from to_double_between [OF nd this] obtain dd where
    dd: "discount_amount_d s = Finite dd" "0 \<le> dd" "dd \<le> n"
    by (auto simp: cs(2) fin rr(1))
  have "0 \<le> n + - dd" "n + - dd \<le> n" using dd(2,3) by simp_all
  from to_double_between [OF nd this] obtain aa where
    aa: "net_after_discount_d s = Finite aa" "0 \<le> aa" "is_double (Finite aa)"
    by (auto simp: cs(3) fin dd(1) fsub_def)
  have vatnn: "fle (Finite 0) (vat_amount_d s)"
  proof (cases "v = 0")
    case True
    with cs(4) show ?thesis by simp
  next
    case False
    with vat have v: "v = 7 \<or> v = 19" by simp
    from cs(5) [OF False] obtain vv where
      vv: "int_float v = Inr vv" "vat_amount_d s = fmul (net_after_discount_d s) (div100 vv)"
      by blast
    from v vv(1) have vv': "vv = Finite (of_int v)" by (auto simp: int_float_small)
    have "0 \<le> real_of_int v / 100" "real_of_int v / 100 \<le> 1" using v by auto
    from to_double_between [OF is_double_1 this] obtain b where
      b: "div100 vv = Finite b" "0 \<le> b"
      by (auto simp: vv')
    show ?thesis using aa(2) b(2) by (simp add: vv(2) aa(1) b(1) fle0_to_double)
  qed
  have "fle (Finite aa) (fadd (Finite aa) (vat_amount_d s))"
  proof (cases "vat_amount_d s")
    case (Finite w)
    with vatnn have "0 \<le> w" by simp
    then have "aa \<le> aa + w" by simp
    from to_double_above [OF aa(3) aa(2) this] show ?thesis by (simp add: Finite)
  qed (use vatnn in simp_all)
  with aa show ?thesis by (simp add: cs(6))
qed

subsection \<open>The two totals of the script\<close>

lemma pairwise_sum_short: "length a < 8 \<Longrightarrow> pairwise_sum a = foldl fadd (Finite 0) a"
  by (subst pairwise_sum.simps) simp

lemma to_double_numeral:
  "(numeral k :: int) < 2 ^ 53 \<Longrightarrow> to_double (numeral k) = Finite (numeral k)"
  using to_double_of_int [of "numeral k"] by simp

lemma int_float_numeral:
  "(numeral k :: int) < 2 ^ 53 \<Longrightarrow> int_float (numeral k) = Inr (Finite (numeral k))"
  using int_float_small [of "numeral k"] by simp

lemma rne_numeral [simp]: "rne (numeral k) = numeral k"
  using rne_of_int [of "numeral k"] by simp

lemma int_float_0 [simp]: "int_float 0 = Inr (Finite 0)"
  using int_float_small [of 0] by simp

lemma np_sum_short: "length a < 8 \<Longrightarrow> np_sum a = foldl fadd (Finite 0) a"
  by (simp add: np_sum_def pairwise_sum_short fadd_zero_left is_double_foldl)

lemma foldl_skip_zero:
  assumes "is_double t"
    and "\<forall>l\<in>set ls. 0 \<le> Menge_d l \<and> (Menge_d l = 0 \<longrightarrow> ZeileNetto_d l = Finite 0)"
  shows "foldl fadd t (map ZeileNetto_d ls) = foldl fadd t (map ZeileNetto_d (package_df_d ls))"
  using assms
proof (induction ls arbitrary: t)
  case Nil
  then show ?case by (simp add: package_df_d_def)
next
  case (Cons l ls)
  show ?case
  proof (cases "0 < Menge_d l")
    case True
    have "is_double (fadd t (ZeileNetto_d l))" by simp
    from Cons.IH [OF this] Cons.prems(2) True show ?thesis
      by (simp add: package_df_d_def)
  next
    case False
    with Cons.prems(2) have "ZeileNetto_d l = Finite 0" by auto
    with Cons.prems(1) have "fadd t (ZeileNetto_d l) = t" by (simp add: fadd_zero_right)
    with Cons.IH [OF Cons.prems(1)] Cons.prems(2) False show ?thesis
      by (simp add: package_df_d_def)
  qed
qed

text \<open>
  Claim C10, amended. When every quantity is at least 0, every unit price is a finite
  number and fewer than 8 lines have a quantity above 0, the running total
  \<open>total_net\<close> of the loop, taken over all selected lines, equals the net subtotal
  \<open>net_sum\<close> that pandas takes over the filtered lines: a line of quantity 0 adds
  exactly 0, and pandas adds fewer than 8 numbers in the order of the loop.
\<close>

theorem running_total_eq_net_sum_short:
  assumes lines: "collect_lines_d sel (Finite 0) [] = Inr (total_net, package_lines)"
    and qty: "\<forall>(art, qty, price)\<in>set sel. 0 \<le> qty"
    and price: "\<forall>(art, qty, price)\<in>set sel. \<exists>r. price = Finite r"
    and short: "length (package_df_d package_lines) < 8"
    and s: "summarise_d package_lines discount v = Some (Inr s)"
  shows "net_sum_d s = total_net"
proof -
  from summarise_d_Some [OF s]
  have s': "compute_summary_d (package_df_d package_lines) discount v = Inr s" by simp
  from collect_lines_d_Inr [OF lines] have
    total: "total_net = foldl fadd (Finite 0) (map ZeileNetto_d package_lines)"
    and sel: "map (\<lambda>l. (Artikel_d l, Menge_d l, Einzelpreis_d l)) package_lines = sel"
    and zn: "\<forall>l\<in>set package_lines. \<exists>q. int_float (Menge_d l) = Inr q
              \<and> ZeileNetto_d l = fmul q (Einzelpreis_d l)"
    by auto
  have each: "0 \<le> Menge_d l \<and> (\<exists>r. Einzelpreis_d l = Finite r)" if "l \<in> set package_lines" for l
  proof -
    from that have "(Artikel_d l, Menge_d l, Einzelpreis_d l) \<in> set sel" using sel by force
    with qty price show ?thesis by auto
  qed
  have zero: "\<forall>l\<in>set package_lines.
      0 \<le> Menge_d l \<and> (Menge_d l = 0 \<longrightarrow> ZeileNetto_d l = Finite 0)"
  proof
    fix l assume l: "l \<in> set package_lines"
    from each [OF l] obtain r where r: "0 \<le> Menge_d l" "Einzelpreis_d l = Finite r" by blast
    from zn l obtain q where q: "int_float (Menge_d l) = Inr q"
      "ZeileNetto_d l = fmul q (Einzelpreis_d l)" by blast
    show "0 \<le> Menge_d l \<and> (Menge_d l = 0 \<longrightarrow> ZeileNetto_d l = Finite 0)"
      using r q by auto
  qed
  have nonan: "\<forall>x\<in>set (map ZeileNetto_d (package_df_d package_lines)). x \<noteq> NotANumber"
  proof
    fix x assume "x \<in> set (map ZeileNetto_d (package_df_d package_lines))"
    then obtain l where l: "l \<in> set package_lines" "x = ZeileNetto_d l"
      by (auto simp: package_df_d_def)
    from each [OF l(1)] obtain r where r: "Einzelpreis_d l = Finite r" by blast
    from zn l(1) obtain q where q: "int_float (Menge_d l) = Inr q"
      "ZeileNetto_d l = fmul q (Einzelpreis_d l)" by blast
    from q(1) have "\<exists>qq. q = Finite qq"
      by (cases "to_double (real_of_int (Menge_d l))") (auto simp: int_float_def)
    with q(2) r l(2) show "x \<noteq> NotANumber" by auto
  qed
  have "map (\<lambda>x. if x = NotANumber then Finite 0 else x)
          (map ZeileNetto_d (package_df_d package_lines))
        = map ZeileNetto_d (package_df_d package_lines)"
    using nonan by (intro map_idI) auto
  then have "series_sum (map ZeileNetto_d (package_df_d package_lines))
        = np_sum (map ZeileNetto_d (package_df_d package_lines))"
    by (simp only: series_sum_def)
  also have "\<dots> = foldl fadd (Finite 0) (map ZeileNetto_d (package_df_d package_lines))"
    using short by (intro np_sum_short) simp
  also have "\<dots> = foldl fadd (Finite 0) (map ZeileNetto_d package_lines)"
    using foldl_skip_zero [OF is_double_0 zero] by simp
  finally show ?thesis using compute_summary_d_Inr(1) [OF s'] total by simp
qed

subsection \<open>A line amount that overflows\<close>

text \<open>
  Claim C5, as stated: in-domain inputs give gross total \<open>\<ge>\<close> net after discount
  \<open>\<ge>\<close> 0. It fails for two tables at the unit price \<open>2 ^ 1023\<close> (about 8.99e307,
  a double), no discount and 19 percent VAT: the line amount overflows to infinity, the
  discount amount \<open>inf * 0.0\<close> is not-a-number, and so are net after discount and
  gross total, which make both comparisons false.
\<close>

theorem overflow_breaks_ordering:
  "to_double (2 ^ 1023) = Finite (2 ^ 1023)
   \<and> fle (Finite 0) (Finite (2 ^ 1023))
   \<and> collect_lines_d [(Txt Tisch, 2, Finite (2 ^ 1023))] (Finite 0) [] =
       Inr (PosInf, [\<lparr>Artikel_d = Txt Tisch, Menge_d = 2, Einzelpreis_d = Finite (2 ^ 1023),
                      ZeileNetto_d = PosInf\<rparr>])
   \<and> summarise_d [\<lparr>Artikel_d = Txt Tisch, Menge_d = 2, Einzelpreis_d = Finite (2 ^ 1023),
                      ZeileNetto_d = PosInf\<rparr>] (Finite 0) 19 =
       Some (Inr \<lparr>net_sum_d = PosInf, discount_amount_d = NotANumber,
            net_after_discount_d = NotANumber, vat_amount_d = NotANumber,
            gross_total_d = NotANumber\<rparr>)
   \<and> \<not> fle (Finite 0) NotANumber \<and> \<not> fle NotANumber NotANumber"
proof -
  have "round64 (2 ^ 1023) = of_int (2 ^ 52) * 2 powi 971"
    by (rule round64_at [where k = 971]) simp_all
  then have r: "round64 (2 ^ 1023) = 2 ^ 1023" by simp
  have a: "to_double (2 ^ 1023) = Finite (2 ^ 1023)"
    by (rule to_double_fix [OF r]) simp
  have m: "fmul (Finite 2) (Finite (2 ^ 1023)) = PosInf"
    by (simp add: to_double_overflow)
  have b: "collect_lines_d [(Txt Tisch, 2, Finite (2 ^ 1023))] (Finite 0) [] =
       Inr (PosInf, [\<lparr>Artikel_d = Txt Tisch, Menge_d = 2, Einzelpreis_d = Finite (2 ^ 1023),
                      ZeileNetto_d = PosInf\<rparr>])"
    by (simp add: int_float_numeral to_double_overflow)
  have c: "summarise_d [\<lparr>Artikel_d = Txt Tisch, Menge_d = 2, Einzelpreis_d = Finite (2 ^ 1023),
                      ZeileNetto_d = PosInf\<rparr>] (Finite 0) 19 =
       Some (Inr \<lparr>net_sum_d = PosInf, discount_amount_d = NotANumber,
            net_after_discount_d = NotANumber, vat_amount_d = NotANumber,
            gross_total_d = NotANumber\<rparr>)"
    by (simp add: summarise_d_def compute_summary_d_def package_df_d_def series_sum_def
        np_sum_short int_float_numeral fsub_def Let_def)
  from a b c show ?thesis by simp
qed

subsection \<open>Eight prices whose two sums differ\<close>

text \<open>Evaluating the rounding of a positive number from its position among the doubles.\<close>

lemma round64_eval:
  assumes "2 ^ 52 \<le> x * 2 ^ d" "x * 2 ^ d < 2 ^ 53" "d \<le> 1074"
    and "\<bar>x * 2 ^ d - real_of_int n\<bar> < 1 / 2
         \<or> (\<bar>x * 2 ^ d - real_of_int n\<bar> = 1 / 2 \<and> even n)"
    and "y = real_of_int n / 2 ^ d"
  shows "round64 x = y"
proof -
  have u: "(1 :: real) / 2 ^ d = 2 powi (- int d)" by (simp add: power_int_minus_divide)
  have q: "x / (1 / 2 ^ d) = x * 2 ^ d" by simp
  have "round64 x = of_int n * (1 / 2 ^ d)"
  proof (rule round64_at [OF u])
    show "- 1074 \<le> - int d" using assms(3) by simp
    show "2 ^ 52 * (1 / 2 ^ d) \<le> x" using assms(1) by (simp add: pos_divide_le_eq)
    show "x < 2 ^ 53 * (1 / 2 ^ d)" using assms(2) by (simp add: pos_less_divide_eq)
    show "rne (x / (1 / 2 ^ d)) = n" unfolding q using assms(4) by (rule rne_unique)
  qed
  then show ?thesis by (simp add: assms(5))
qed

text \<open>
  The doubles read from the decimals 0.1 to 0.8, the partial sums of the loop over
  them, and the partial sums of numpy.
\<close>

lemma to_double_eval: "round64 x = y \<Longrightarrow> \<bar>y\<bar> < 2 ^ 1024 \<Longrightarrow> to_double x = Finite y"
  using to_double_cases [of x] by auto

lemma dbl_1: "to_double (1 / 10) = Finite (3602879701896397 / 36028797018963968)"
  by (rule to_double_eval, rule round64_eval [where d = 56 and n = 7205759403792794]) simp_all

lemma dbl_2: "to_double (1 / 5) = Finite (3602879701896397 / 18014398509481984)"
  by (rule to_double_eval, rule round64_eval [where d = 55 and n = 7205759403792794]) simp_all

lemma dbl_3: "to_double (3 / 10) = Finite (5404319552844595 / 18014398509481984)"
  by (rule to_double_eval, rule round64_eval [where d = 54 and n = 5404319552844595]) simp_all

lemma dbl_4: "to_double (2 / 5) = Finite (3602879701896397 / 9007199254740992)"
  by (rule to_double_eval, rule round64_eval [where d = 54 and n = 7205759403792794]) simp_all

lemma dbl_5: "to_double (1 / 2) = Finite (1 / 2)"
  by (rule to_double_eval, rule round64_eval [where d = 53 and n = 4503599627370496]) simp_all

lemma dbl_6: "to_double (3 / 5) = Finite (5404319552844595 / 9007199254740992)"
  by (rule to_double_eval, rule round64_eval [where d = 53 and n = 5404319552844595]) simp_all

lemma dbl_7: "to_double (7 / 10) = Finite (3152519739159347 / 4503599627370496)"
  by (rule to_double_eval, rule round64_eval [where d = 53 and n = 6305039478318694]) simp_all

lemma dbl_8: "to_double (4 / 5) = Finite (3602879701896397 / 4503599627370496)"
  by (rule to_double_eval, rule round64_eval [where d = 53 and n = 7205759403792794]) simp_all

lemma dbl_9: "to_double (3602879701896397 / 36028797018963968) = Finite (3602879701896397 / 36028797018963968)"
  by (rule to_double_eval, rule round64_eval [where d = 56 and n = 7205759403792794]) simp_all

lemma dbl_10: "to_double (3602879701896397 / 18014398509481984) = Finite (3602879701896397 / 18014398509481984)"
  by (rule to_double_eval, rule round64_eval [where d = 55 and n = 7205759403792794]) simp_all

lemma dbl_11: "to_double (5404319552844595 / 18014398509481984) = Finite (5404319552844595 / 18014398509481984)"
  by (rule to_double_eval, rule round64_eval [where d = 54 and n = 5404319552844595]) simp_all

lemma dbl_12: "to_double (3602879701896397 / 9007199254740992) = Finite (3602879701896397 / 9007199254740992)"
  by (rule to_double_eval, rule round64_eval [where d = 54 and n = 7205759403792794]) simp_all

lemma dbl_13: "to_double (5404319552844595 / 9007199254740992) = Finite (5404319552844595 / 9007199254740992)"
  by (rule to_double_eval, rule round64_eval [where d = 53 and n = 5404319552844595]) simp_all

lemma dbl_14: "to_double (3152519739159347 / 4503599627370496) = Finite (3152519739159347 / 4503599627370496)"
  by (rule to_double_eval, rule round64_eval [where d = 53 and n = 6305039478318694]) simp_all

lemma dbl_15: "to_double (3602879701896397 / 4503599627370496) = Finite (3602879701896397 / 4503599627370496)"
  by (rule to_double_eval, rule round64_eval [where d = 53 and n = 7205759403792794]) simp_all

lemma dbl_16: "to_double (10808639105689191 / 36028797018963968) = Finite (1351079888211149 / 4503599627370496)"
  by (rule to_double_eval, rule round64_eval [where d = 54 and n = 5404319552844596]) simp_all

lemma dbl_17: "to_double (10808639105689191 / 18014398509481984) = Finite (1351079888211149 / 2251799813685248)"
  by (rule to_double_eval, rule round64_eval [where d = 53 and n = 5404319552844596]) simp_all

lemma dbl_18: "to_double (9007199254740993 / 9007199254740992) = Finite (1)"
  by (rule to_double_eval, rule round64_eval [where d = 52 and n = 4503599627370496]) simp_all

lemma dbl_19: "to_double (3 / 2) = Finite (3 / 2)"
  by (rule to_double_eval, rule round64_eval [where d = 52 and n = 6755399441055744]) simp_all

lemma dbl_20: "to_double (18915118434956083 / 9007199254740992) = Finite (4728779608739021 / 2251799813685248)"
  by (rule to_double_eval, rule round64_eval [where d = 51 and n = 4728779608739021]) simp_all

lemma dbl_21: "to_double (12610078956637389 / 4503599627370496) = Finite (3152519739159347 / 1125899906842624)"
  by (rule to_double_eval, rule round64_eval [where d = 51 and n = 6305039478318694]) simp_all

lemma dbl_22: "to_double (16212958658533785 / 4503599627370496) = Finite (2026619832316723 / 562949953421312)"
  by (rule to_double_eval, rule round64_eval [where d = 51 and n = 8106479329266892]) simp_all

lemma dbl_23: "to_double (12610078956637389 / 18014398509481984) = Finite (3152519739159347 / 4503599627370496)"
  by (rule to_double_eval, rule round64_eval [where d = 53 and n = 6305039478318694]) simp_all

lemma dbl_24: "to_double (9907919180215091 / 9007199254740992) = Finite (2476979795053773 / 2251799813685248)"
  by (rule to_double_eval, rule round64_eval [where d = 52 and n = 4953959590107546]) simp_all

lemma dbl_25: "to_double (1) = Finite (1)"
  by (rule to_double_eval, rule round64_eval [where d = 52 and n = 4503599627370496]) simp_all

lemma dbl_26: "to_double (5854679515581645 / 2251799813685248) = Finite (5854679515581645 / 2251799813685248)"
  by (rule to_double_eval, rule round64_eval [where d = 51 and n = 5854679515581645]) simp_all

lemma dbl_27: "to_double (8106479329266893 / 2251799813685248) = Finite (8106479329266893 / 2251799813685248)"
  by (rule to_double_eval, rule round64_eval [where d = 51 and n = 8106479329266893]) simp_all

lemma dbl_28: "to_double (2026619832316723 / 562949953421312) = Finite (2026619832316723 / 562949953421312)"
  by (rule to_double_eval, rule round64_eval [where d = 51 and n = 8106479329266892]) simp_all


lemmas dbl_evals = dbl_1 dbl_2 dbl_3 dbl_4 dbl_5 dbl_6 dbl_7 dbl_8 dbl_9 dbl_10 dbl_11 dbl_12 dbl_13 dbl_14 dbl_15 dbl_16 dbl_17 dbl_18 dbl_19 dbl_20 dbl_21 dbl_22 dbl_23 dbl_24 dbl_25 dbl_26 dbl_27 dbl_28

lemma int_float_1 [simp]: "int_float 1 = Inr (Finite 1)"
  using int_float_small [of 1] by simp

lemma unrolled8_done: "length a < 8 \<Longrightarrow> unrolled8 r a = (r, a)"
  by (subst unrolled8.simps) simp

lemma pairwise_sum_block:
  "length a = 8 \<Longrightarrow> pairwise_sum a = combine8 a"
  by (subst pairwise_sum.simps) (simp add: unrolled8_done)

text \<open>
  Claim C10, as stated: with quantities at least 0 the running total of the loop always
  equals the net subtotal. It fails for eight articles at 0.1 to 0.8, each taken once:
  the loop adds them one after the other to \<open>3.5999999999999996\<close>, pandas adds them
  in pairs to \<open>3.6\<close>, the next double.
\<close>

theorem running_total_differs:
  "collect_lines_d eight_selected (Finite 0) [] =
     Inr (Finite (2026619832316723 / 562949953421312), eight_collected)
   \<and> map_option (map_sum id net_sum_d) (summarise_d eight_collected (Finite 0) 0) =
       Some (Inr (Finite (8106479329266893 / 2251799813685248)))
   \<and> length (package_df_d eight_collected) = 8
   \<and> Finite (2026619832316723 / 562949953421312)
       \<noteq> Finite (8106479329266893 / 2251799813685248)"
proof -
  have a: "collect_lines_d eight_selected (Finite 0) [] =
     Inr (Finite (2026619832316723 / 562949953421312), eight_collected)"
    by (simp add: eight_selected_def eight_collected_def dbl_evals)
  have p: "package_df_d eight_collected = eight_collected"
    by (simp add: package_df_d_def eight_collected_def)
  have n: "series_sum (map ZeileNetto_d eight_collected)
      = Finite (8106479329266893 / 2251799813685248)"
    by (simp add: series_sum_def np_sum_def pairwise_sum_block combine8_def
        eight_collected_def dbl_evals)
  have ne: "eight_collected \<noteq> []" by (simp add: eight_collected_def)
  have b: "map_option (map_sum id net_sum_d) (summarise_d eight_collected (Finite 0) 0) =
       Some (Inr (Finite (8106479329266893 / 2251799813685248)))"
    by (simp add: summarise_d_def p ne compute_summary_d_def Let_def n)
  have c: "length (package_df_d eight_collected) = 8"
    by (simp add: p) (simp add: eight_collected_def)
  from a b c show ?thesis by simp
qed

subsection \<open>Scenarios A and C in double arithmetic\<close>

text \<open>
  Two tables at 10 and three chairs at 5, at 50 percent discount and 7 percent VAT: the
  net subtotal is the double 35, and net after discount and gross total are in order.
\<close>

theorem gross_ge_net_after_discount_finite_witness:
  "\<exists>s. collect_lines_d [(Txt Tisch, 2, Finite 10), (Txt Stuhl, 3, Finite 5)] (Finite 0) [] =
         Inr (Finite 35,
              [\<lparr>Artikel_d = Txt Tisch, Menge_d = 2, Einzelpreis_d = Finite 10,
                 ZeileNetto_d = Finite 20\<rparr>,
               \<lparr>Artikel_d = Txt Stuhl, Menge_d = 3, Einzelpreis_d = Finite 5,
                 ZeileNetto_d = Finite 15\<rparr>])
      \<and> summarise_d
           [\<lparr>Artikel_d = Txt Tisch, Menge_d = 2, Einzelpreis_d = Finite 10,
              ZeileNetto_d = Finite 20\<rparr>,
            \<lparr>Artikel_d = Txt Stuhl, Menge_d = 3, Einzelpreis_d = Finite 5,
              ZeileNetto_d = Finite 15\<rparr>] (Finite 50) 7 = Some (Inr s)
      \<and> net_sum_d s = Finite 35
      \<and> fle (Finite 0) (net_after_discount_d s)
      \<and> fle (net_after_discount_d s) (gross_total_d s)"
proof -
  let ?sel = "[(Txt Tisch, 2 :: int, Finite 10), (Txt Stuhl, 3, Finite 5)]"
  let ?L = "[\<lparr>Artikel_d = Txt Tisch, Menge_d = 2, Einzelpreis_d = Finite 10,
                 ZeileNetto_d = Finite 20\<rparr>,
               \<lparr>Artikel_d = Txt Stuhl, Menge_d = 3, Einzelpreis_d = Finite 5,
                 ZeileNetto_d = Finite 15\<rparr>]"
  have h1: "collect_lines_d ?sel (Finite 0) [] = Inr (Finite 35, ?L)"
    by (simp add: int_float_numeral to_double_numeral)
  have h2: "\<forall>(art, qty, price)\<in>set ?sel. 0 \<le> qty" by simp
  have h3: "\<forall>(art, qty, price)\<in>set ?sel. fle (Finite 0) price" by simp
  have h4: "Finite 50 = Finite 50" "(0 :: real) \<le> 50" "(50 :: real) \<le> 100"
    "(7 :: int) \<in> {0, 7, 19}" by simp_all
  have net: "series_sum (map ZeileNetto_d (package_df_d ?L)) = Finite 35"
    by (simp add: package_df_d_def series_sum_def np_sum_short to_double_numeral)
  obtain s where s: "summarise_d ?L (Finite 50) 7 = Some (Inr s)"
    by (simp add: summarise_d_def package_df_d_def compute_summary_d_def Let_def
        int_float_numeral)
  from summarise_d_Some [OF s]
  have "compute_summary_d (package_df_d ?L) (Finite 50) 7 = Inr s" by simp
  from compute_summary_d_Inr(1) [OF this] net have n: "net_sum_d s = Finite 35" by simp
  from h1 s n gross_ge_net_after_discount_finite [OF h1 h2 h3 h4 s n] show ?thesis by blast
qed

text \<open>
  Two tables at 10 and a chair line of quantity 0: the running total and the net
  subtotal are both the double 20.
\<close>

theorem running_total_eq_net_sum_short_witness:
  "\<exists>s. collect_lines_d [(Txt Tisch, 2, Finite 10), (Txt Stuhl, 0, Finite 5)] (Finite 0) [] =
         Inr (Finite 20,
              [\<lparr>Artikel_d = Txt Tisch, Menge_d = 2, Einzelpreis_d = Finite 10,
                 ZeileNetto_d = Finite 20\<rparr>,
               \<lparr>Artikel_d = Txt Stuhl, Menge_d = 0, Einzelpreis_d = Finite 5,
                 ZeileNetto_d = Finite 0\<rparr>])
      \<and> summarise_d
           [\<lparr>Artikel_d = Txt Tisch, Menge_d = 2, Einzelpreis_d = Finite 10,
              ZeileNetto_d = Finite 20\<rparr>,
            \<lparr>Artikel_d = Txt Stuhl, Menge_d = 0, Einzelpreis_d = Finite 5,
              ZeileNetto_d = Finite 0\<rparr>] (Finite 0) 19 = Some (Inr s)
      \<and> net_sum_d s = Finite 20"
proof -
  let ?sel = "[(Txt Tisch, 2 :: int, Finite 10), (Txt Stuhl, 0, Finite 5)]"
  let ?L = "[\<lparr>Artikel_d = Txt Tisch, Menge_d = 2, Einzelpreis_d = Finite 10,
                 ZeileNetto_d = Finite 20\<rparr>,
               \<lparr>Artikel_d = Txt Stuhl, Menge_d = 0, Einzelpreis_d = Finite 5,
                 ZeileNetto_d = Finite 0\<rparr>]"
  have h1: "collect_lines_d ?sel (Finite 0) [] = Inr (Finite 20, ?L)"
    by (simp add: int_float_numeral to_double_numeral)
  have h2: "\<forall>(art, qty, price)\<in>set ?sel. 0 \<le> qty" by simp
  have h3: "\<forall>(art, qty, price)\<in>set ?sel. \<exists>r. price = Finite r" by simp
  have h4: "length (package_df_d ?L) < 8" by (simp add: package_df_d_def)
  obtain s where s: "summarise_d ?L (Finite 0) 19 = Some (Inr s)"
    by (simp add: summarise_d_def package_df_d_def compute_summary_d_def Let_def
        int_float_numeral)
  from h1 s running_total_eq_net_sum_short [OF h1 h2 h3 h4 s] show ?thesis by blast
qed

end
